theory Spec2Isabelle
  imports Complex_Main "HOL-Library.List_Lexorder" "HOL-Library.Char_ord"
begin

section \<open>The creature-battle simulator of coolecode.py\<close>

text \<open>
  A shallow embedding of \<^verbatim>\<open>src/coolecode.py\<close>. Python integers are unbounded, so
  every integer field is an \<open>int\<close>; Python's \<^verbatim>\<open>//\<close> is floor division, which is
  \<open>div\<close> on \<open>int\<close>. Objects are mutated in place and two parameters may
  name the same object, so the \<^verbatim>\<open>Pokemon\<close> instances live in a store indexed by
  references, and the methods transform the store. Exceptions are values of \<open>error\<close>;
  an operation returns its outcome together with the store it leaves behind, because
  a raise does not undo the mutations made before it. The \<^verbatim>\<open>print\<close> calls and the
  \<^verbatim>\<open>log_action\<close> wrapper (which prints and hands the wrapped function's result
  through) write to the console only and are left out.
\<close>

subsection \<open>Errors and the random source\<close>

datatype error =
    IndexError        \<comment> \<open>\<^verbatim>\<open>random.choice\<close> on an empty sequence\<close>
  | StatisticsError   \<comment> \<open>\<^verbatim>\<open>statistics.mean\<close> on no data\<close>
  | ValueError        \<comment> \<open>\<^verbatim>\<open>max\<close>/\<^verbatim>\<open>min\<close> on an empty sequence\<close>
  | OverflowError     \<comment> \<open>\<^verbatim>\<open>float\<close> of a fraction beyond the range of a double\<close>

text \<open>
  \<^verbatim>\<open>random.choice(seq)\<close> raises \<^verbatim>\<open>IndexError\<close> on an empty sequence and otherwise
  returns \<^verbatim>\<open>seq[i]\<close> for a random index \<open>i < len(seq)\<close>. The raw random draw is the
  argument \<open>k\<close>; every index below the length is reached by some draw.
\<close>

definition random_choice :: "nat \<Rightarrow> 'a list \<Rightarrow> error + 'a" where
  "random_choice k seq =
     (if seq = [] then Inl IndexError else Inr (seq ! (k mod length seq)))"

subsection \<open>The id generator\<close>

text \<open>Decimal rendering of a counter, as the f-string \<^verbatim>\<open>f"{prefix}{counter}"\<close> does.\<close>

fun str_nat :: "nat \<Rightarrow> string" where
  "str_nat n =
     (if n < 10 then [''0123456789'' ! n]
      else str_nat (n div 10) @ [''0123456789'' ! (n mod 10)])"

declare str_nat.simps [simp del]

text \<open>
  \<^verbatim>\<open>infinite_id_generator(prefix)\<close>: the generator's state is its local \<^verbatim>\<open>counter\<close>
  (1 at the start); \<^verbatim>\<open>next\<close> yields the id and leaves the counter one higher.
\<close>

definition infinite_id_generator_next :: "string \<Rightarrow> nat \<Rightarrow> string \<times> nat" where
  "infinite_id_generator_next prefix counter = (prefix @ str_nat counter, counter + 1)"

definition id_gen_start :: nat where
  "id_gen_start = 1"

subsection \<open>Pokemon\<close>

record Pokemon =
  sort_index :: int
  name :: string
  type' :: string
  hp :: int
  attack :: int
  defense :: int
  speed :: int
  moves :: "string list"
  id' :: string

text \<open>
  The dataclass constructor followed by \<^verbatim>\<open>__post_init__\<close>: the fields are stored as
  given, the id is the next one of \<^verbatim>\<open>id_gen\<close> and \<^verbatim>\<open>sort_index\<close> is the \<^verbatim>\<open>hp\<close> of
  that moment. The first argument is the state of \<^verbatim>\<open>id_gen\<close>, returned advanced.
\<close>

definition Pokemon_init ::
  "nat \<Rightarrow> string \<Rightarrow> string \<Rightarrow> int \<Rightarrow> int \<Rightarrow> int \<Rightarrow> int \<Rightarrow> string list \<Rightarrow> Pokemon \<times> nat" where
  "Pokemon_init gen n t h a d sp ms =
     (case infinite_id_generator_next ''PKMN-'' gen of
        (i, gen') \<Rightarrow>
          (\<lparr>sort_index = h, name = n, type' = t, hp = h, attack = a, defense = d,
            speed = sp, moves = ms, id' = i\<rparr>, gen'))"

type_synonym ref = nat
type_synonym store = "ref \<Rightarrow> Pokemon"

text \<open>\<^verbatim>\<open>self.hp = max(self.hp - damage, 0)\<close>\<close>

definition receive_damage :: "store \<Rightarrow> ref \<Rightarrow> int \<Rightarrow> store" where
  "receive_damage s self damage =
     s(self := (s self)\<lparr>hp := max (hp (s self) - damage) 0\<rparr>)"

text \<open>\<^verbatim>\<open>max(self.attack - opponent.defense // 2, 1)\<close>, the local \<^verbatim>\<open>damage\<close> of
  \<^verbatim>\<open>attack_opponent\<close>.\<close>

definition attack_damage :: "Pokemon \<Rightarrow> Pokemon \<Rightarrow> int" where
  "attack_damage self opponent = max (attack self - defense opponent div 2) 1"

text \<open>
  \<^verbatim>\<open>attack_opponent\<close>: the move is chosen first (and may raise), the damage is
  computed from the attacker and the opponent as they are then, and the opponent
  receives it. The chosen move goes to the console line only.
\<close>

definition attack_opponent :: "nat \<Rightarrow> store \<Rightarrow> ref \<Rightarrow> ref \<Rightarrow> (error + unit) \<times> store" where
  "attack_opponent k s self opponent =
     (case random_choice k (moves (s self)) of
        Inl e \<Rightarrow> (Inl e, s)
      | Inr move \<Rightarrow>
          (let damage = attack_damage (s self) (s opponent)
           in (Inr (), receive_damage s opponent damage)))"

subsection \<open>The battle\<close>

text \<open>How one pass through the body of the \<^verbatim>\<open>while\<close> loop ends.\<close>

datatype flow = Break | Continue

text \<open>
  The body of the loop of \<^verbatim>\<open>BattleArena.battle\<close>. \<open>rnd\<close> is the sequence of random
  draws still to come: the first attack of the round takes \<open>rnd 0\<close>, the second
  \<open>rnd 1\<close>.
\<close>

definition battle_round ::
  "(nat \<Rightarrow> nat) \<Rightarrow> store \<Rightarrow> ref \<Rightarrow> ref \<Rightarrow> (error + flow) \<times> store" where
  "battle_round rnd s pkmn1 pkmn2 =
     (if speed (s pkmn1) \<ge> speed (s pkmn2) then
        (case attack_opponent (rnd 0) s pkmn1 pkmn2 of
           (Inl e, s1) \<Rightarrow> (Inl e, s1)
         | (Inr _, s1) \<Rightarrow>
             if hp (s1 pkmn2) \<le> 0 then (Inr Break, s1)
             else (case attack_opponent (rnd 1) s1 pkmn2 pkmn1 of
                     (Inl e, s2) \<Rightarrow> (Inl e, s2)
                   | (Inr _, s2) \<Rightarrow> (Inr Continue, s2)))
      else
        (case attack_opponent (rnd 0) s pkmn2 pkmn1 of
           (Inl e, s1) \<Rightarrow> (Inl e, s1)
         | (Inr _, s1) \<Rightarrow>
             if hp (s1 pkmn1) \<le> 0 then (Inr Break, s1)
             else (case attack_opponent (rnd 1) s1 pkmn1 pkmn2 of
                     (Inl e, s2) \<Rightarrow> (Inl e, s2)
                   | (Inr _, s2) \<Rightarrow> (Inr Continue, s2))))"

text \<open>
  The \<^verbatim>\<open>while pkmn1.hp > 0 and pkmn2.hp > 0\<close> loop. Nothing is assumed about its
  termination: a run that never leaves the loop is the value \<open>None\<close>.
\<close>

partial_function (option) battle_loop ::
  "(nat \<Rightarrow> nat) \<Rightarrow> store \<Rightarrow> ref \<Rightarrow> ref \<Rightarrow> ((error + unit) \<times> store) option" where
  "battle_loop rnd s pkmn1 pkmn2 =
     (if hp (s pkmn1) > 0 \<and> hp (s pkmn2) > 0 then
        (case battle_round rnd s pkmn1 pkmn2 of
           (Inl e, s') \<Rightarrow> Some (Inl e, s')
         | (Inr Break, s') \<Rightarrow> Some (Inr (), s')
         | (Inr Continue, s') \<Rightarrow> battle_loop (\<lambda>i. rnd (i + 2)) s' pkmn1 pkmn2)
      else Some (Inr (), s))"

declare battle_loop.simps [code]

text \<open>
  \<^verbatim>\<open>BattleArena\<close>: its \<^verbatim>\<open>history\<close> is a list of dicts with the keys \<^verbatim>\<open>pkmn1\<close>,
  \<^verbatim>\<open>pkmn2\<close> and \<^verbatim>\<open>winner\<close>, each an association list in the order of the literal.
\<close>

record BattleArena =
  history :: "(string \<times> string) list list"

definition BattleArena_init :: BattleArena where
  "BattleArena_init = \<lparr>history = []\<rparr>"

definition battle ::
  "(nat \<Rightarrow> nat) \<Rightarrow> BattleArena \<Rightarrow> store \<Rightarrow> ref \<Rightarrow> ref
     \<Rightarrow> ((error + string) \<times> BattleArena \<times> store) option" where
  "battle rnd self s pkmn1 pkmn2 =
     (case battle_loop rnd s pkmn1 pkmn2 of
        None \<Rightarrow> None
      | Some (Inl e, s') \<Rightarrow> Some (Inl e, self, s')
      | Some (Inr _, s') \<Rightarrow>
          (let winner = (if hp (s' pkmn1) > 0 then pkmn1 else pkmn2)
           in Some (Inr (name (s' winner)),
                    self\<lparr>history := history self @
                      [[(''pkmn1'', name (s' pkmn1)),
                        (''pkmn2'', name (s' pkmn2)),
                        (''winner'', name (s' winner))]]\<rparr>,
                    s')))"

subsection \<open>Data analysis\<close>

text \<open>
  What \<^verbatim>\<open>statistics.mean\<close> hands back on integers is a Python \<^verbatim>\<open>int\<close> or a Python
  \<^verbatim>\<open>float\<close>. A float is kept as the rational number the double stands for (every finite
  double is one); the sign of a zero is not kept.
\<close>

datatype number =
    PyInt int
  | PyFloat rat

text \<open>The number of binary digits of a positive integer, \<^verbatim>\<open>int.bit_length\<close>.\<close>

function bit_length :: "int \<Rightarrow> nat" where
  "bit_length n = (if n \<le> 0 then 0 else Suc (bit_length (n div 2)))"
  by pat_completeness auto
termination
  by (relation "measure nat") auto

declare bit_length.simps [simp del]

text \<open>For \<open>x > 0\<close>, the exponent \<open>e\<close> of its binade: \<open>2 powi e \<le> x < 2 powi (e + 1)\<close>.\<close>

definition floor_log2 :: "rat \<Rightarrow> int" where
  "floor_log2 x =
     (if 1 \<le> x then int (bit_length \<lfloor>x\<rfloor>) - 1
      else - int (bit_length (\<lceil>1 / x\<rceil> - 1)))"

text \<open>The nearest integer, a tie going to the even one.\<close>

definition round_half_even :: "rat \<Rightarrow> int" where
  "round_half_even y =
     (let f = \<lfloor>y\<rfloor>; r = y - of_int f
      in if r < 1 / 2 then f
         else if 1 / 2 < r then f + 1
         else if even f then f else f + 1)"

text \<open>
  \<^verbatim>\<open>float(fraction)\<close>, which is the true division \<^verbatim>\<open>numerator / denominator\<close> of two
  \<^verbatim>\<open>int\<close>s: the quotient correctly rounded to a double (IEEE 754 binary64, round to
  nearest, ties to even). A double in the binade of exponent \<open>e\<close> is a multiple of
  \<open>2 powi (e - 52)\<close> (53 significant bits); below \<open>2 powi (- 1022)\<close> the doubles are the multiples of
  \<open>2 powi (- 1074)\<close>; a quotient that rounds to \<open>2 ^ 1024\<close> or more in magnitude raises
  \<^verbatim>\<open>OverflowError\<close>.
\<close>

definition float_of_fraction :: "rat \<Rightarrow> error + rat" where
  "float_of_fraction x =
     (if x = 0 then Inr 0
      else
        let e = max (floor_log2 \<bar>x\<bar>) (- 1022);
            q = 2 powi (e - 52);
            r = of_int (round_half_even (x / q)) * q
        in if 2 ^ 1024 \<le> \<bar>r\<bar> then Inl OverflowError else Inr r)"

text \<open>
  \<^verbatim>\<open>statistics.mean\<close> raises \<^verbatim>\<open>StatisticsError\<close> on no data. On integers it forms the
  exact fraction sum over count and converts it: to an \<^verbatim>\<open>int\<close> when the fraction is whole
  (its denominator is 1), and with \<^verbatim>\<open>float\<close> otherwise.
\<close>

definition mean :: "int list \<Rightarrow> error + number" where
  "mean data =
     (if data = [] then Inl StatisticsError
      else if int (length data) dvd sum_list data
      then Inr (PyInt (sum_list data div int (length data)))
      else (case float_of_fraction (of_int (sum_list data) / of_nat (length data)) of
              Inl e \<Rightarrow> Inl e
            | Inr f \<Rightarrow> Inr (PyFloat f)))"

text \<open>The builtins \<^verbatim>\<open>max\<close> and \<^verbatim>\<open>min\<close> on a list: one pass that keeps the best item
  seen so far.\<close>

definition py_max :: "int list \<Rightarrow> error + int" where
  "py_max xs =
     (case xs of
        [] \<Rightarrow> Inl ValueError
      | x # rest \<Rightarrow> Inr (fold (\<lambda>item maxitem. if item > maxitem then item else maxitem) rest x))"

definition py_min :: "int list \<Rightarrow> error + int" where
  "py_min xs =
     (case xs of
        [] \<Rightarrow> Inl ValueError
      | x # rest \<Rightarrow> Inr (fold (\<lambda>item minitem. if item < minitem then item else minitem) rest x))"

record stats =
  average_hp :: number
  max_hp :: int
  min_hp :: int

definition pokemon_statistics :: "Pokemon list \<Rightarrow> error + stats" where
  "pokemon_statistics pokemon_list =
     (let hp_values = map hp pokemon_list in
      case mean hp_values of
        Inl e \<Rightarrow> Inl e
      | Inr m \<Rightarrow>
          (case py_max hp_values of
             Inl e \<Rightarrow> Inl e
           | Inr mx \<Rightarrow>
               (case py_min hp_values of
                  Inl e \<Rightarrow> Inl e
                | Inr mn \<Rightarrow> Inr \<lparr>average_hp = m, max_hp = mx, min_hp = mn\<rparr>)))"

text \<open>
  \<^verbatim>\<open>itertools.groupby(iterable, key)\<close>: the runs of consecutive items with equal key,
  each with its key.
\<close>

function groupby :: "('a \<Rightarrow> 'k) \<Rightarrow> 'a list \<Rightarrow> ('k \<times> 'a list) list" where
  "groupby key [] = []"
| "groupby key (x # xs) =
     (key x, x # takeWhile (\<lambda>y. key y = key x) xs)
       # groupby key (dropWhile (\<lambda>y. key y = key x) xs)"
  by pat_completeness auto
termination
  by (relation "measure (\<lambda>(key, xs). length xs)")
     (auto simp: length_dropWhile_le less_Suc_eq_le)

text \<open>
  \<^verbatim>\<open>group_by_type\<close>: \<^verbatim>\<open>sorted\<close> is a stable sort by the key, as \<open>sort_key\<close> is, and
  Python compares strings lexicographically by code point; each run then overwrites
  the dict entry of its key.
\<close>

definition group_by_type :: "Pokemon list \<Rightarrow> (string \<rightharpoonup> Pokemon list)" where
  "group_by_type pokemon_list =
     fold (\<lambda>(t, group) grouped. grouped(t \<mapsto> group))
       (groupby type' (sort_key type' pokemon_list)) Map.empty"

subsection \<open>The roster of main\<close>

definition main_pokemons :: "Pokemon list" where
  "main_pokemons =
     (case Pokemon_init id_gen_start ''Pikachu'' ''Electric'' 35 55 40 90
             [''Thunderbolt'', ''Quick Attack'', ''Iron Tail''] of (p0, g1) \<Rightarrow>
      case Pokemon_init g1 ''Charmander'' ''Fire'' 39 52 43 65
             [''Flamethrower'', ''Scratch'', ''Ember''] of (p1, g2) \<Rightarrow>
      case Pokemon_init g2 ''Squirtle'' ''Water'' 44 48 65 43
             [''Water Gun'', ''Tackle'', ''Bubble''] of (p2, g3) \<Rightarrow>
      case Pokemon_init g3 ''Bulbasaur'' ''Grass'' 45 49 49 45
             [''Vine Whip'', ''Tackle'', ''Seed Bomb''] of (p3, g4) \<Rightarrow>
      [p0, p1, p2, p3])"

text \<open>The store in which reference \<open>i\<close> is the \<open>i\<close>-th Pokemon of the roster.\<close>

definition main_store :: store where
  "main_store =
     (\<lambda>r. main_pokemons ! 0)
       (1 := main_pokemons ! 1, 2 := main_pokemons ! 2, 3 := main_pokemons ! 3)"

subsection \<open>A round as the specification words it\<close>

text \<open>
  Section 4.4 of the specification, steps 2 and 3, for a first and a second attacker:
  the first attacks the second with the damage formula; if that brings the second one's
  hp to 0 the round is over without a counter-attack; otherwise the second attacks the
  first, and the loop condition is looked at again. An attacker without moves is the
  error of section 4.3. This definition follows the specification's words, not the
  code; \<open>battle_round\<close> above is the code.
\<close>

definition spec_round :: "store \<Rightarrow> ref \<Rightarrow> ref \<Rightarrow> (error + flow) \<times> store" where
  "spec_round s first second =
     (if moves (s first) = [] then (Inl IndexError, s)
      else
        let s1 = s(second := (s second)\<lparr>hp :=
                   max (hp (s second) - max (attack (s first) - defense (s second) div 2) 1) 0\<rparr>)
        in if hp (s1 second) = 0 then (Inr Break, s1)
           else if moves (s1 second) = [] then (Inl IndexError, s1)
           else (Inr Continue,
                 s1(first := (s1 first)\<lparr>hp :=
                   max (hp (s1 first) - max (attack (s1 second) - defense (s1 first) div 2) 1) 0\<rparr>)))"

subsection \<open>Frame of an operation\<close>

text \<open>Two states of a Pokemon that agree on every field except possibly \<^verbatim>\<open>hp\<close>.\<close>

definition same_but_hp :: "Pokemon \<Rightarrow> Pokemon \<Rightarrow> bool" where
  "same_but_hp p q \<longleftrightarrow>
     sort_index q = sort_index p \<and> name q = name p \<and> type' q = type' p \<and>
     attack q = attack p \<and> defense q = defense p \<and> speed q = speed p \<and>
     moves q = moves p \<and> id' q = id' p"

section \<open>Facts about single operations\<close>

lemma floor_half: "\<lfloor>real_of_int x / 2\<rfloor> = x div 2"
  using floor_divide_of_int_eq [of x 2, where ?'a = real] by simp

lemma attack_opponent_cases:
  "attack_opponent k s self opponent =
     (if moves (s self) = [] then (Inl IndexError, s)
      else (Inr (), receive_damage s opponent (attack_damage (s self) (s opponent))))"
  by (simp add: attack_opponent_def random_choice_def)

lemma attack_damage_pos: "1 \<le> attack_damage a d"
  by (simp add: attack_damage_def)

lemma receive_damage_hp:
  "hp (receive_damage s r d r') = (if r' = r then max (hp (s r) - d) 0 else hp (s r'))"
  by (simp add: receive_damage_def)

lemma same_but_hp_refl: "same_but_hp p p"
  by (simp add: same_but_hp_def)

lemma same_but_hp_trans: "same_but_hp p q \<Longrightarrow> same_but_hp q r \<Longrightarrow> same_but_hp p r"
  by (simp add: same_but_hp_def)

lemma receive_damage_frame: "same_but_hp (s r) (receive_damage s self d r)"
  by (simp add: receive_damage_def same_but_hp_def)

lemma receive_damage_other: "r \<noteq> self \<Longrightarrow> receive_damage s self d r = s r"
  by (simp add: receive_damage_def)

lemma attack_opponent_frame:
  "same_but_hp (s r) (snd (attack_opponent k s self opponent) r)"
  by (simp add: attack_opponent_cases receive_damage_frame same_but_hp_refl)

lemma attack_opponent_other:
  "r \<noteq> opponent \<Longrightarrow> snd (attack_opponent k s self opponent) r = s r"
  by (simp add: attack_opponent_cases receive_damage_other)

subsection \<open>The roster of main, evaluated\<close>

lemma main_pokemons_eq:
  "main_pokemons =
     [\<lparr>sort_index = 35, name = ''Pikachu'', type' = ''Electric'', hp = 35, attack = 55,
        defense = 40, speed = 90, moves = [''Thunderbolt'', ''Quick Attack'', ''Iron Tail''],
        id' = ''PKMN-1''\<rparr>,
      \<lparr>sort_index = 39, name = ''Charmander'', type' = ''Fire'', hp = 39, attack = 52,
        defense = 43, speed = 65, moves = [''Flamethrower'', ''Scratch'', ''Ember''],
        id' = ''PKMN-2''\<rparr>,
      \<lparr>sort_index = 44, name = ''Squirtle'', type' = ''Water'', hp = 44, attack = 48,
        defense = 65, speed = 43, moves = [''Water Gun'', ''Tackle'', ''Bubble''],
        id' = ''PKMN-3''\<rparr>,
      \<lparr>sort_index = 45, name = ''Bulbasaur'', type' = ''Grass'', hp = 45, attack = 49,
        defense = 49, speed = 45, moves = [''Vine Whip'', ''Tackle'', ''Seed Bomb''],
        id' = ''PKMN-4''\<rparr>]"
  by (simp add: main_pokemons_def Pokemon_init_def infinite_id_generator_next_def
        id_gen_start_def str_nat.simps)

lemma main_store_simps:
  "main_store 0 = main_pokemons ! 0"
  "main_store (Suc 0) = main_pokemons ! 1"
  "main_store 1 = main_pokemons ! 1"
  "main_store 2 = main_pokemons ! 2"
  "main_store 3 = main_pokemons ! 3"
  by (simp_all add: main_store_def)

section \<open>Damage\<close>

text \<open>
  Claim C1. In every attack that is resolved, the amount handed to the defender is
  \<open>max (attacker.attack - floor (defender.defense / 2)) 1\<close>, an integer, and it is at
  least 1 whatever the attack and defense values are. The floor is taken here over the
  reals, to compare the code's \<^verbatim>\<open>//\<close> with the formula as the specification writes it.
\<close>

theorem attack_damage_formula:
  "attack_damage (s self) (s opponent) =
      max (attack (s self) - \<lfloor>real_of_int (defense (s opponent)) / 2\<rfloor>) 1
   \<and> 1 \<le> attack_damage (s self) (s opponent)
   \<and> (moves (s self) \<noteq> [] \<longrightarrow>
        attack_opponent k s self opponent =
          (Inr (), receive_damage s opponent (attack_damage (s self) (s opponent))))"
  by (simp add: attack_opponent_cases floor_half attack_damage_def)

theorem attack_damage_formula_witness:
  "moves (main_store 0) \<noteq> []
   \<and> attack_damage (main_store 0) (main_store 1) = 34
   \<and> attack_opponent 0 main_store 0 1 = (Inr (), receive_damage main_store 1 34)"
proof -
  have m: "moves (main_store 0) \<noteq> []"
    by (simp add: main_store_simps main_pokemons_eq)
  have d: "max (attack (main_store 0) - \<lfloor>real_of_int (defense (main_store 1)) / 2\<rfloor>) 1 = 34"
    by (simp add: main_store_simps main_pokemons_eq)
  from attack_damage_formula [of main_store 0 1 0] m d show ?thesis
    by simp
qed

text \<open>
  Claim C5. After \<^verbatim>\<open>receive_damage\<close> the entity's hp is \<open>max (old_hp - d) 0\<close> and so is
  not negative. The code has this for every integer \<open>d\<close>, the amounts \<open>d \<ge> 0\<close> of the
  claim among them.
\<close>

theorem receive_damage_clamps_hp:
  "hp (receive_damage s e d e) = max (hp (s e) - d) 0 \<and> 0 \<le> hp (receive_damage s e d e)"
  by (simp add: receive_damage_hp)

text \<open>
  Claim C9. An attack fails exactly when the attacker has no moves, with the
  \<^verbatim>\<open>IndexError\<close> of \<^verbatim>\<open>random.choice\<close> (the failure the specification calls
  InvalidState) and the store untouched. With at least one move it succeeds: a move of
  the list is selected, and the outcome is the same for every random draw, so the
  selected move has no effect on the damage.
\<close>

theorem attack_fails_iff_no_moves:
  "((\<exists>e s'. attack_opponent k s self opponent = (Inl e, s')) \<longleftrightarrow> moves (s self) = [])
   \<and> (moves (s self) = [] \<longrightarrow> attack_opponent k s self opponent = (Inl IndexError, s))
   \<and> (moves (s self) \<noteq> [] \<longrightarrow>
        (\<exists>move \<in> set (moves (s self)). random_choice k (moves (s self)) = Inr move)
        \<and> (\<forall>k'. attack_opponent k' s self opponent =
                  (Inr (), receive_damage s opponent (attack_damage (s self) (s opponent)))))"
  by (simp add: attack_opponent_cases random_choice_def)

theorem attack_fails_iff_no_moves_witness:
  "moves (main_store 0) \<noteq> []
   \<and> attack_opponent 7 main_store 0 1 = (Inr (), receive_damage main_store 1 34)
   \<and> random_choice 7 (moves (main_store 0)) = Inr ''Quick Attack''
   \<and> moves ((main_store(0 := (main_store 0)\<lparr>moves := []\<rparr>)) 0) = []
   \<and> fst (attack_opponent 7 (main_store(0 := (main_store 0)\<lparr>moves := []\<rparr>)) 0 1) = Inl IndexError"
proof -
  have m: "moves (main_store 0) \<noteq> []"
    by (simp add: main_store_simps main_pokemons_eq)
  have d: "attack_damage (main_store 0) (main_store 1) = 34"
    by (simp add: main_store_simps main_pokemons_eq attack_damage_def)
  have c: "random_choice 7 (moves (main_store 0)) = Inr ''Quick Attack''"
    by (simp add: main_store_simps main_pokemons_eq random_choice_def)
  have e: "moves ((main_store(0 := (main_store 0)\<lparr>moves := []\<rparr>)) 0) = []"
    by simp
  from attack_fails_iff_no_moves [of 7 main_store 0 1] m d
  have "attack_opponent 7 main_store 0 1 = (Inr (), receive_damage main_store 1 34)"
    by simp
  moreover
  from attack_fails_iff_no_moves [of 7 "main_store(0 := (main_store 0)\<lparr>moves := []\<rparr>)" 0 1] e
  have "fst (attack_opponent 7 (main_store(0 := (main_store 0)\<lparr>moves := []\<rparr>)) 0 1)
          = Inl IndexError"
    by simp
  ultimately show ?thesis using m c e by simp
qed

section \<open>The battle loop\<close>

text \<open>
  One round, spelled out: \<open>A\<close> is the Pokemon that attacks first, \<open>B\<close> the other one,
  \<open>s1\<close> the store after the first attack and \<open>s2\<close> the store after the second.
\<close>

lemma battle_round_cases:
  assumes A: "A = (if speed (s pkmn1) \<ge> speed (s pkmn2) then pkmn1 else pkmn2)"
      and B: "B = (if speed (s pkmn1) \<ge> speed (s pkmn2) then pkmn2 else pkmn1)"
      and s1: "s1 = receive_damage s B (attack_damage (s A) (s B))"
      and s2: "s2 = receive_damage s1 A (attack_damage (s1 B) (s1 A))"
  shows "battle_round rnd s pkmn1 pkmn2 =
     (if moves (s A) = [] then (Inl IndexError, s)
      else if hp (s1 B) \<le> 0 then (Inr Break, s1)
      else if moves (s1 B) = [] then (Inl IndexError, s1)
      else (Inr Continue, s2))"
  unfolding A B s1 s2
  by (simp add: battle_round_def attack_opponent_cases)

lemma battle_round_decreases:
  assumes alive: "0 < hp (s pkmn1)" "0 < hp (s pkmn2)"
      and cont: "battle_round rnd s pkmn1 pkmn2 = (Inr Continue, s')"
  shows "nat (hp (s' pkmn1)) + nat (hp (s' pkmn2)) < nat (hp (s pkmn1)) + nat (hp (s pkmn2))"
proof -
  define A where "A = (if speed (s pkmn1) \<ge> speed (s pkmn2) then pkmn1 else pkmn2)"
  define B where "B = (if speed (s pkmn1) \<ge> speed (s pkmn2) then pkmn2 else pkmn1)"
  define d1 where "d1 = attack_damage (s A) (s B)"
  define s1 where "s1 = receive_damage s B d1"
  define d2 where "d2 = attack_damage (s1 B) (s1 A)"
  define s2 where "s2 = receive_damage s1 A d2"
  have d: "1 \<le> d1" "1 \<le> d2"
    by (simp_all add: d1_def d2_def attack_damage_pos)
  have AB: "0 < hp (s A)" "0 < hp (s B)"
    using alive by (simp_all add: A_def B_def)
  have "battle_round rnd s pkmn1 pkmn2 =
     (if moves (s A) = [] then (Inl IndexError, s)
      else if hp (s1 B) \<le> 0 then (Inr Break, s1)
      else if moves (s1 B) = [] then (Inl IndexError, s1)
      else (Inr Continue, s2))"
    by (rule battle_round_cases) (simp_all add: A_def B_def s1_def s2_def d1_def d2_def)
  with cont have s': "s' = s2" and nb: "0 < hp (s1 B)"
    by (auto split: if_splits)
  have sum: "nat (hp (s2 A)) + nat (hp (s2 B)) < nat (hp (s A)) + nat (hp (s B))"
    using d AB nb by (auto simp: s2_def s1_def receive_damage_hp)
  have "{pkmn1, pkmn2} = {A, B}" "(pkmn1 = A \<and> pkmn2 = B) \<or> (pkmn1 = B \<and> pkmn2 = A)"
    by (auto simp: A_def B_def)
  then show ?thesis using sum unfolding s' by auto
qed

text \<open>
  Total correctness of the loop: it returns, and its result has every property that
  holds when the loop is not entered, holds of a round that raises or breaks, and is
  carried backwards over a round after which the loop goes on. The measure is the sum
  of the two hp values, which a round that continues makes smaller.
\<close>

lemma battle_loop_rule:
  assumes stop: "\<And>s. \<not> (0 < hp (s pkmn1) \<and> 0 < hp (s pkmn2)) \<Longrightarrow> P s (Inr (), s)"
      and err: "\<And>rnd s e s'. 0 < hp (s pkmn1) \<Longrightarrow> 0 < hp (s pkmn2) \<Longrightarrow>
                  battle_round rnd s pkmn1 pkmn2 = (Inl e, s') \<Longrightarrow> P s (Inl e, s')"
      and brk: "\<And>rnd s s'. 0 < hp (s pkmn1) \<Longrightarrow> 0 < hp (s pkmn2) \<Longrightarrow>
                  battle_round rnd s pkmn1 pkmn2 = (Inr Break, s') \<Longrightarrow> P s (Inr (), s')"
      and cont: "\<And>rnd s s' y. 0 < hp (s pkmn1) \<Longrightarrow> 0 < hp (s pkmn2) \<Longrightarrow>
                  battle_round rnd s pkmn1 pkmn2 = (Inr Continue, s') \<Longrightarrow> P s' y \<Longrightarrow> P s y"
  shows "\<exists>y. battle_loop rnd s pkmn1 pkmn2 = Some y \<and> P s y"
proof (induction "nat (hp (s pkmn1)) + nat (hp (s pkmn2))" arbitrary: rnd s rule: less_induct)
  case less
  show ?case
  proof (cases "0 < hp (s pkmn1) \<and> 0 < hp (s pkmn2)")
    case False
    then have "battle_loop rnd s pkmn1 pkmn2 = Some (Inr (), s)"
      by (subst battle_loop.simps) auto
    with stop [OF False] show ?thesis by simp
  next
    case True
    then have alive: "0 < hp (s pkmn1)" "0 < hp (s pkmn2)" by simp_all
    obtain out s' where r: "battle_round rnd s pkmn1 pkmn2 = (out, s')"
      by (cases "battle_round rnd s pkmn1 pkmn2")
    show ?thesis
    proof (cases out)
      case (Inl e)
      with r alive have "battle_loop rnd s pkmn1 pkmn2 = Some (Inl e, s')"
        by (subst battle_loop.simps) simp
      with err [OF alive r [unfolded Inl]] show ?thesis by simp
    next
      case (Inr fl)
      show ?thesis
      proof (cases fl)
        case Break
        with r Inr alive have "battle_loop rnd s pkmn1 pkmn2 = Some (Inr (), s')"
          by (subst battle_loop.simps) simp
        with brk [OF alive r [unfolded Inr Break]] show ?thesis by simp
      next
        case Continue
        with r Inr have rc: "battle_round rnd s pkmn1 pkmn2 = (Inr Continue, s')" by simp
        have eq: "battle_loop rnd s pkmn1 pkmn2 = battle_loop (\<lambda>i. rnd (i + 2)) s' pkmn1 pkmn2"
          using rc alive by (subst battle_loop.simps) simp
        from less [OF battle_round_decreases [OF alive rc]]
        obtain y where y: "battle_loop (\<lambda>i. rnd (i + 2)) s' pkmn1 pkmn2 = Some y" "P s' y"
          by blast
        from cont [OF alive rc y(2)] y(1) eq show ?thesis by simp
      qed
    qed
  qed
qed

lemma battle_round_frame:
  "same_but_hp (s r) (snd (battle_round rnd s pkmn1 pkmn2) r)"
proof -
  have *: "same_but_hp (s r) (receive_damage (receive_damage s a d) b d' r)" for a b d d'
    by (rule same_but_hp_trans [OF receive_damage_frame receive_damage_frame])
  show ?thesis
    by (simp add: battle_round_cases [OF refl refl refl refl] same_but_hp_refl
          receive_damage_frame * del: One_nat_def)
qed

lemma battle_round_other:
  "r \<noteq> pkmn1 \<Longrightarrow> r \<noteq> pkmn2 \<Longrightarrow> snd (battle_round rnd s pkmn1 pkmn2) r = s r"
  by (simp add: battle_round_cases [OF refl refl refl refl] receive_damage_other)

lemma battle_loop_frame:
  assumes "battle_loop rnd s pkmn1 pkmn2 = Some (out, s')"
  shows "same_but_hp (s r) (s' r)"
proof -
  have "\<exists>y. battle_loop rnd s pkmn1 pkmn2 = Some y \<and> same_but_hp (s r) (snd y r)"
  proof (rule battle_loop_rule, goal_cases)
    case (1 s)
    show ?case by (simp add: same_but_hp_refl)
  next
    case (2 rnd s e s')
    from battle_round_frame [of s r rnd pkmn1 pkmn2] 2(3) show ?case by simp
  next
    case (3 rnd s s')
    from battle_round_frame [of s r rnd pkmn1 pkmn2] 3(3) show ?case by simp
  next
    case (4 rnd s s' y)
    from battle_round_frame [of s r rnd pkmn1 pkmn2] 4(3) have "same_but_hp (s r) (s' r)"
      by simp
    then show ?case using 4(4) by (rule same_but_hp_trans)
  qed
  with assms show ?thesis by simp
qed

lemma battle_loop_other:
  assumes "battle_loop rnd s pkmn1 pkmn2 = Some (out, s')" "r \<noteq> pkmn1" "r \<noteq> pkmn2"
  shows "s' r = s r"
proof -
  have "\<exists>y. battle_loop rnd s pkmn1 pkmn2 = Some y \<and> snd y r = s r"
  proof (rule battle_loop_rule, goal_cases)
    case (1 s)
    show ?case by simp
  next
    case (2 rnd s e s')
    from battle_round_other [OF assms(2,3), of rnd s] 2(3) show ?case by simp
  next
    case (3 rnd s s')
    from battle_round_other [OF assms(2,3), of rnd s] 3(3) show ?case by simp
  next
    case (4 rnd s s' y)
    from battle_round_other [OF assms(2,3), of rnd s] 4(3) 4(4) show ?case by simp
  qed
  with assms show ?thesis by simp
qed

text \<open>What a round leaves behind when it is entered by two distinct Pokemon, both alive.\<close>

lemma battle_round_Break_survivor:
  assumes "pkmn1 \<noteq> pkmn2" "0 < hp (s pkmn1)" "0 < hp (s pkmn2)"
      and "battle_round rnd s pkmn1 pkmn2 = (Inr Break, s')"
  shows "(0 < hp (s' pkmn1)) \<noteq> (0 < hp (s' pkmn2))"
  using assms
  by (auto simp: battle_round_cases [OF refl refl refl refl] receive_damage_hp
           split: if_splits)

lemma battle_round_Continue_survivor:
  assumes "pkmn1 \<noteq> pkmn2" "0 < hp (s pkmn1)" "0 < hp (s pkmn2)"
      and "battle_round rnd s pkmn1 pkmn2 = (Inr Continue, s')"
  shows "0 < hp (s' pkmn1) \<or> 0 < hp (s' pkmn2)"
  using assms
  by (auto simp: battle_round_cases [OF refl refl refl refl] receive_damage_hp
           split: if_splits)

lemma battle_loop_survivor:
  assumes ne: "pkmn1 \<noteq> pkmn2"
      and alive: "0 < hp (s pkmn1) \<or> 0 < hp (s pkmn2)"
      and run: "battle_loop rnd s pkmn1 pkmn2 = Some (Inr (), s')"
  shows "(0 < hp (s' pkmn1)) \<noteq> (0 < hp (s' pkmn2))"
proof -
  let ?P = "\<lambda>s y. (0 < hp (s pkmn1) \<or> 0 < hp (s pkmn2)) \<longrightarrow>
               (\<forall>s'. y = (Inr (), s') \<longrightarrow> (0 < hp (s' pkmn1)) \<noteq> (0 < hp (s' pkmn2)))"
  have "\<exists>y. battle_loop rnd s pkmn1 pkmn2 = Some y \<and> ?P s y"
  proof (rule battle_loop_rule, goal_cases)
    case (1 s)
    then show ?case by auto
  next
    case (2 rnd s e s')
    show ?case by simp
  next
    case (3 rnd s s')
    from battle_round_Break_survivor [OF ne 3] show ?case by simp
  next
    case (4 rnd s s' y)
    from battle_round_Continue_survivor [OF ne 4(1-3)] 4(4) show ?case by simp
  qed
  with alive run show ?thesis by simp
qed

lemma battle_round_error:
  assumes "battle_round rnd s pkmn1 pkmn2 = (Inl e, s')"
  shows "e = IndexError \<and> (moves (s pkmn1) = [] \<or> moves (s pkmn2) = [])"
  using assms
  by (auto simp: battle_round_cases [OF refl refl refl refl] receive_damage_def
           split: if_splits)

lemma battle_loop_error:
  assumes "battle_loop rnd s pkmn1 pkmn2 = Some (Inl e, s')"
  shows "e = IndexError \<and> (moves (s pkmn1) = [] \<or> moves (s pkmn2) = [])"
proof -
  let ?P = "\<lambda>s y. \<forall>e s'. y = (Inl e, s') \<longrightarrow>
               e = IndexError \<and> (moves (s pkmn1) = [] \<or> moves (s pkmn2) = [])"
  have "\<exists>y. battle_loop rnd s pkmn1 pkmn2 = Some y \<and> ?P s y"
  proof (rule battle_loop_rule, goal_cases)
    case (1 s)
    show ?case by simp
  next
    case (2 rnd s e s')
    from battle_round_error [OF 2(3)] show ?case by simp
  next
    case (3 rnd s s')
    show ?case by simp
  next
    case (4 rnd s s' y)
    from battle_round_frame [of s _ rnd pkmn1 pkmn2] 4(3)
    have "moves (s' pkmn1) = moves (s pkmn1)" "moves (s' pkmn2) = moves (s pkmn2)"
      by (simp_all add: same_but_hp_def)
    with 4(4) show ?case by simp
  qed
  with assms show ?thesis by simp
qed

lemma battle_loop_total: "\<exists>y. battle_loop rnd s pkmn1 pkmn2 = Some y"
proof -
  have "\<exists>y. battle_loop rnd s pkmn1 pkmn2 = Some y \<and> True"
    by (rule battle_loop_rule) simp_all
  then show ?thesis by simp
qed

lemma battle_loop_no_error:
  assumes "moves (s pkmn1) \<noteq> []" "moves (s pkmn2) \<noteq> []"
  shows "\<exists>s'. battle_loop rnd s pkmn1 pkmn2 = Some (Inr (), s')"
proof -
  obtain out s' where y: "battle_loop rnd s pkmn1 pkmn2 = Some (out, s')"
    using battle_loop_total [of rnd s pkmn1 pkmn2] by auto
  show ?thesis
  proof (cases out)
    case (Inl e)
    with battle_loop_error [of rnd s pkmn1 pkmn2 e s'] y assms show ?thesis by simp
  next
    case (Inr u)
    with y show ?thesis by simp
  qed
qed

lemma battle_total: "\<exists>y. battle rnd self s pkmn1 pkmn2 = Some y"
proof -
  obtain out s' where "battle_loop rnd s pkmn1 pkmn2 = Some (out, s')"
    using battle_loop_total [of rnd s pkmn1 pkmn2] by auto
  then show ?thesis
    by (cases out) (simp_all add: battle_def Let_def)
qed

text \<open>
  Claim C2. A battle between two Pokemon whose hp are both positive terminates: the loop
  and \<^verbatim>\<open>battle\<close> return a result (a winner, or the error of an attack without moves),
  and every round after which the loop goes on has made the sum of the two hp values
  strictly smaller, because each attack takes at least 1 from a positive hp.
\<close>

theorem battle_terminates:
  assumes "0 < hp (s pkmn1)" and "0 < hp (s pkmn2)"
  shows "(\<exists>y. battle_loop rnd s pkmn1 pkmn2 = Some y)
     \<and> (\<exists>y. battle rnd self s pkmn1 pkmn2 = Some y)
     \<and> (fst (battle_round rnd s pkmn1 pkmn2) = Inr Continue \<longrightarrow>
          nat (hp (snd (battle_round rnd s pkmn1 pkmn2) pkmn1))
            + nat (hp (snd (battle_round rnd s pkmn1 pkmn2) pkmn2))
          < nat (hp (s pkmn1)) + nat (hp (s pkmn2)))"
proof (intro conjI impI)
  show "\<exists>y. battle_loop rnd s pkmn1 pkmn2 = Some y" by (rule battle_loop_total)
  show "\<exists>y. battle rnd self s pkmn1 pkmn2 = Some y" by (rule battle_total)
next
  assume "fst (battle_round rnd s pkmn1 pkmn2) = Inr Continue"
  then have "battle_round rnd s pkmn1 pkmn2 =
               (Inr Continue, snd (battle_round rnd s pkmn1 pkmn2))"
    by (metis prod.collapse)
  from battle_round_decreases [OF assms this]
  show "nat (hp (snd (battle_round rnd s pkmn1 pkmn2) pkmn1))
            + nat (hp (snd (battle_round rnd s pkmn1 pkmn2) pkmn2))
          < nat (hp (s pkmn1)) + nat (hp (s pkmn2))" .
qed

lemma main_round_eval:
  "fst (battle_round (\<lambda>i. 0) main_store 0 1) = Inr Continue"
  "hp (snd (battle_round (\<lambda>i. 0) main_store 0 1) 0) = 3"
  "hp (snd (battle_round (\<lambda>i. 0) main_store 0 1) 1) = 5"
  by (simp_all add: battle_round_def attack_opponent_cases attack_damage_def
        receive_damage_def main_store_simps main_pokemons_eq)

theorem battle_terminates_witness:
  "0 < hp (main_store 0) \<and> 0 < hp (main_store 1)
   \<and> fst (battle_round (\<lambda>i. 0) main_store 0 1) = Inr Continue
   \<and> (\<exists>y. battle (\<lambda>i. 0) BattleArena_init main_store 0 1 = Some y)
   \<and> nat (hp (snd (battle_round (\<lambda>i. 0) main_store 0 1) 0))
        + nat (hp (snd (battle_round (\<lambda>i. 0) main_store 0 1) 1)) < 74"
proof -
  have h: "0 < hp (main_store 0)" "0 < hp (main_store 1)"
    by (simp_all add: main_store_simps main_pokemons_eq)
  have n: "nat (hp (main_store 0)) + nat (hp (main_store 1)) = 74"
    by (simp add: main_store_simps main_pokemons_eq)
  from battle_terminates [OF h, of "\<lambda>i. 0" BattleArena_init] main_round_eval(1) n h
  show ?thesis by simp
qed

section \<open>The outcome of a battle\<close>

text \<open>What \<^verbatim>\<open>battle\<close> returns, in terms of what its loop returns.\<close>

lemma battle_Inr_iff:
  "battle rnd self s pkmn1 pkmn2 = Some (Inr w, a', s') \<longleftrightarrow>
     battle_loop rnd s pkmn1 pkmn2 = Some (Inr (), s')
     \<and> w = name (s' (if 0 < hp (s' pkmn1) then pkmn1 else pkmn2))
     \<and> a' = self\<lparr>history := history self @
              [[(''pkmn1'', name (s' pkmn1)), (''pkmn2'', name (s' pkmn2)), (''winner'', w)]]\<rparr>"
proof -
  obtain out t where y: "battle_loop rnd s pkmn1 pkmn2 = Some (out, t)"
    using battle_loop_total [of rnd s pkmn1 pkmn2] by auto
  show ?thesis
    by (cases out) (auto simp: battle_def y Let_def)
qed

lemma battle_Inl_iff:
  "battle rnd self s pkmn1 pkmn2 = Some (Inl e, a', s') \<longleftrightarrow>
     battle_loop rnd s pkmn1 pkmn2 = Some (Inl e, s') \<and> a' = self"
proof -
  obtain out t where y: "battle_loop rnd s pkmn1 pkmn2 = Some (out, t)"
    using battle_loop_total [of rnd s pkmn1 pkmn2] by auto
  show ?thesis
    by (cases out) (auto simp: battle_def y Let_def)
qed

text \<open>The first battle of main, run with every random draw equal to 0.\<close>

lemma main_battle_eval:
  "\<exists>a' s'. battle (\<lambda>i. 0) BattleArena_init main_store 0 1 = Some (Inr ''Pikachu'', a', s')
      \<and> history a' = [[(''pkmn1'', ''Pikachu''), (''pkmn2'', ''Charmander''), (''winner'', ''Pikachu'')]]
      \<and> hp (s' 0) = 3 \<and> hp (s' 1) = 0"
  apply (simp add: battle_def BattleArena_init_def)
  apply (subst battle_loop.simps)
  apply (simp add: main_store_simps main_pokemons_eq battle_round_def attack_opponent_cases
           attack_damage_def receive_damage_def)
  apply (subst battle_loop.simps)
  apply (simp add: main_store_simps main_pokemons_eq battle_round_def attack_opponent_cases
           attack_damage_def receive_damage_def)
  done

text \<open>
  When both parameters name the same object, every attack lands on the attacker:
  Squirtle sent into battle against itself wears itself down to hp 0 and is returned
  as winner.
\<close>

lemma battle_against_itself:
  "\<exists>a' s'. battle (\<lambda>i. 0) BattleArena_init main_store 2 2 = Some (Inr ''Squirtle'', a', s')
      \<and> hp (s' 2) = 0"
  apply (simp add: battle_def BattleArena_init_def)
  apply (subst battle_loop.simps)
  apply (simp add: main_store_simps main_pokemons_eq battle_round_def attack_opponent_cases
           attack_damage_def receive_damage_def)
  apply (subst battle_loop.simps)
  apply (simp add: main_store_simps main_pokemons_eq battle_round_def attack_opponent_cases
           attack_damage_def receive_damage_def)
  done

text \<open>
  The specification's sentence C3, read for every call of \<^verbatim>\<open>battle\<close> whose two arguments
  have positive hp, is false of the code on two kinds of input. First, \<^verbatim>\<open>battle(p, p)\<close>:
  Squirtle (hp 44) sent against itself is returned as the winner with hp 0, so the
  returned entity is not one with hp above 0. Second, an attacker with no moves (the
  default of the dataclass): Pikachu without moves against Charmander, two distinct
  objects with positive hp, raises \<^verbatim>\<open>IndexError\<close> in the first round; no name is returned
  and both still have hp above 0.
\<close>

theorem battle_winner_counterexample:
  "0 < hp (main_store 2)
   \<and> (\<exists>a' s'. battle (\<lambda>i. 0) BattleArena_init main_store 2 2 = Some (Inr ''Squirtle'', a', s')
         \<and> \<not> 0 < hp (s' 2))
   \<and> (0::nat) \<noteq> 1
   \<and> 0 < hp ((main_store(0 := (main_store 0)\<lparr>moves := []\<rparr>)) 0)
   \<and> 0 < hp ((main_store(0 := (main_store 0)\<lparr>moves := []\<rparr>)) 1)
   \<and> (\<exists>s'. battle (\<lambda>i. 0) BattleArena_init (main_store(0 := (main_store 0)\<lparr>moves := []\<rparr>)) 0 1
               = Some (Inl IndexError, BattleArena_init, s')
         \<and> 0 < hp (s' 0) \<and> 0 < hp (s' 1))"
proof -
  have a: "0 < hp (main_store 2)"
    by (simp add: main_store_simps main_pokemons_eq)
  have b: "\<exists>a' s'. battle (\<lambda>i. 0) BattleArena_init main_store 2 2 = Some (Inr ''Squirtle'', a', s')
         \<and> \<not> 0 < hp (s' 2)"
    using battle_against_itself by auto
  have c: "0 < hp ((main_store(0 := (main_store 0)\<lparr>moves := []\<rparr>)) 0)"
    "0 < hp ((main_store(0 := (main_store 0)\<lparr>moves := []\<rparr>)) 1)"
    by (simp_all add: main_store_simps main_pokemons_eq)
  have d: "\<exists>s'. battle (\<lambda>i. 0) BattleArena_init (main_store(0 := (main_store 0)\<lparr>moves := []\<rparr>)) 0 1
               = Some (Inl IndexError, BattleArena_init, s')
         \<and> 0 < hp (s' 0) \<and> 0 < hp (s' 1)"
    apply (simp add: battle_def BattleArena_init_def)
    apply (subst battle_loop.simps)
    apply (simp add: main_store_simps main_pokemons_eq battle_round_def attack_opponent_cases)
    done
  from a b c d show ?thesis by simp
qed

text \<open>
  Claim C3, amended. A battle between two distinct objects (\<open>pkmn1 \<noteq> pkmn2\<close>), both
  with positive hp: whenever \<^verbatim>\<open>battle\<close> returns a name, the loop has exited with exactly
  one of the two at hp above 0, and the name returned is the name of that one, which is
  the name one of the two had at the start. It does return a name whenever both have a
  move to choose; an attacker without moves makes it raise instead.
\<close>

theorem battle_winner_is_sole_survivor:
  assumes ne: "pkmn1 \<noteq> pkmn2"
      and alive: "0 < hp (s pkmn1)" "0 < hp (s pkmn2)"
  shows "(moves (s pkmn1) \<noteq> [] \<and> moves (s pkmn2) \<noteq> [] \<longrightarrow>
            (\<exists>w a' s'. battle rnd self s pkmn1 pkmn2 = Some (Inr w, a', s')))
       \<and> (\<forall>w a' s'. battle rnd self s pkmn1 pkmn2 = Some (Inr w, a', s') \<longrightarrow>
            battle_loop rnd s pkmn1 pkmn2 = Some (Inr (), s')
            \<and> ((0 < hp (s' pkmn1)) \<noteq> (0 < hp (s' pkmn2)))
            \<and> (0 < hp (s' pkmn1) \<longrightarrow> w = name (s' pkmn1))
            \<and> (0 < hp (s' pkmn2) \<longrightarrow> w = name (s' pkmn2))
            \<and> (w = name (s pkmn1) \<or> w = name (s pkmn2)))"
proof (intro conjI allI impI)
  assume "moves (s pkmn1) \<noteq> [] \<and> moves (s pkmn2) \<noteq> []"
  then obtain s' where "battle_loop rnd s pkmn1 pkmn2 = Some (Inr (), s')"
    using battle_loop_no_error [of s pkmn1 pkmn2 rnd] by auto
  then show "\<exists>w a' s'. battle rnd self s pkmn1 pkmn2 = Some (Inr w, a', s')"
    by (auto simp: battle_Inr_iff)
next
  fix w a' s'
  assume b: "battle rnd self s pkmn1 pkmn2 = Some (Inr w, a', s')"
  then have loop: "battle_loop rnd s pkmn1 pkmn2 = Some (Inr (), s')"
    and w: "w = name (s' (if 0 < hp (s' pkmn1) then pkmn1 else pkmn2))"
    by (simp_all add: battle_Inr_iff)
  from alive have one: "(0 < hp (s' pkmn1)) \<noteq> (0 < hp (s' pkmn2))"
    by (intro battle_loop_survivor [OF ne _ loop]) simp
  have names: "name (s' pkmn1) = name (s pkmn1)" "name (s' pkmn2) = name (s pkmn2)"
    using battle_loop_frame [OF loop] by (simp_all add: same_but_hp_def)
  show "battle_loop rnd s pkmn1 pkmn2 = Some (Inr (), s')" by (rule loop)
  show "(0 < hp (s' pkmn1)) \<noteq> (0 < hp (s' pkmn2))" by (rule one)
  show "w = name (s' pkmn1)" if "0 < hp (s' pkmn1)" using that w by simp
  show "w = name (s' pkmn2)" if "0 < hp (s' pkmn2)" using that w one by auto
  show "w = name (s pkmn1) \<or> w = name (s pkmn2)" using w names by auto
qed

theorem battle_winner_is_sole_survivor_witness:
  "(0::nat) \<noteq> 1 \<and> 0 < hp (main_store 0) \<and> 0 < hp (main_store 1)
   \<and> moves (main_store 0) \<noteq> [] \<and> moves (main_store 1) \<noteq> []
   \<and> (\<exists>a' s'. battle (\<lambda>i. 0) BattleArena_init main_store 0 1 = Some (Inr ''Pikachu'', a', s')
         \<and> 0 < hp (s' 0) \<and> \<not> 0 < hp (s' 1) \<and> name (s' 0) = ''Pikachu'')"
proof -
  have h: "(0::nat) \<noteq> 1" "0 < hp (main_store 0)" "0 < hp (main_store 1)"
    by (simp_all add: main_store_simps main_pokemons_eq)
  have m: "moves (main_store 0) \<noteq> []" "moves (main_store 1) \<noteq> []"
    by (simp_all add: main_store_simps main_pokemons_eq)
  obtain a' s' where b: "battle (\<lambda>i. 0) BattleArena_init main_store 0 1 = Some (Inr ''Pikachu'', a', s')"
    and hp: "hp (s' 0) = 3"
    using main_battle_eval by blast
  from battle_winner_is_sole_survivor [OF h, of "\<lambda>i. 0" BattleArena_init] b hp
  have "0 < hp (s' 0) \<and> \<not> 0 < hp (s' 1) \<and> name (s' 0) = ''Pikachu''"
    by auto
  with b h m show ?thesis by blast
qed

section \<open>The order of attacks within a round\<close>

lemma spec_round_cases:
  assumes s1: "s1 = receive_damage s A (attack_damage (s B) (s A))"
      and s2: "s2 = receive_damage s1 B (attack_damage (s1 A) (s1 B))"
  shows "spec_round s B A =
     (if moves (s B) = [] then (Inl IndexError, s)
      else if hp (s1 A) \<le> 0 then (Inr Break, s1)
      else if moves (s1 A) = [] then (Inl IndexError, s1)
      else (Inr Continue, s2))"
proof -
  have z: "hp (s1 A) \<le> 0 \<longleftrightarrow> hp (s1 A) = 0"
    by (simp add: s1 receive_damage_hp max_def)
  have e1: "s(A := (s A)\<lparr>hp :=
              max (hp (s A) - max (attack (s B) - defense (s A) div 2) 1) 0\<rparr>) = s1"
    unfolding s1 receive_damage_def attack_damage_def ..
  have e2: "s1(B := (s1 B)\<lparr>hp :=
              max (hp (s1 B) - max (attack (s1 A) - defense (s1 B) div 2) 1) 0\<rparr>) = s2"
    unfolding s2 receive_damage_def attack_damage_def ..
  show ?thesis
    unfolding spec_round_def Let_def e1 e2 z ..
qed

lemma battle_round_spec:
  "battle_round rnd s pkmn1 pkmn2 =
     (if speed (s pkmn1) \<ge> speed (s pkmn2) then spec_round s pkmn1 pkmn2
      else spec_round s pkmn2 pkmn1)"
proof (cases "speed (s pkmn1) \<ge> speed (s pkmn2)")
  case True
  have "battle_round rnd s pkmn1 pkmn2 = spec_round s pkmn1 pkmn2"
    unfolding spec_round_cases [OF refl refl]
    by (rule battle_round_cases) (simp_all add: True)
  with True show ?thesis by simp
next
  case False
  have "battle_round rnd s pkmn1 pkmn2 = spec_round s pkmn2 pkmn1"
    unfolding spec_round_cases [OF refl refl]
    by (rule battle_round_cases) (simp_all add: False)
  with False show ?thesis by simp
qed

lemma spec_round_Break_first:
  assumes "A \<noteq> B" "fst (spec_round s A B) = Inr Break"
  shows "snd (spec_round s A B) A = s A"
proof -
  have "spec_round s A B =
     (if moves (s A) = [] then (Inl IndexError, s)
      else if hp (receive_damage s B (attack_damage (s A) (s B)) B) \<le> 0
        then (Inr Break, receive_damage s B (attack_damage (s A) (s B)))
      else if moves (receive_damage s B (attack_damage (s A) (s B)) B) = []
        then (Inl IndexError, receive_damage s B (attack_damage (s A) (s B)))
      else (Inr Continue,
            receive_damage (receive_damage s B (attack_damage (s A) (s B))) A
              (attack_damage (receive_damage s B (attack_damage (s A) (s B)) B)
                 (receive_damage s B (attack_damage (s A) (s B)) A))))"
    by (rule spec_round_cases [OF refl refl])
  with assms(2) have "snd (spec_round s A B) = receive_damage s B (attack_damage (s A) (s B))"
    by (simp split: if_splits)
  with assms(1) show ?thesis by (simp add: receive_damage_other)
qed

text \<open>
  Claim C4. In every round the Pokemon whose speed is at least the other's attacks first,
  \<open>pkmn1\<close> on a tie: the round of the code is the specification's round with that one as
  first attacker. If the first attack brings the defender's hp to 0 the round ends by
  \<^verbatim>\<open>break\<close> and the first attacker has not been touched (no counter-attack); otherwise
  the second one counter-attacks, and only then, while both had hp above 0 at the start
  of the round, the loop goes on to look at its condition again.
\<close>

theorem round_order:
  "battle_round rnd s pkmn1 pkmn2 =
     (if speed (s pkmn1) \<ge> speed (s pkmn2) then spec_round s pkmn1 pkmn2
      else spec_round s pkmn2 pkmn1)
   \<and> (0 < hp (s pkmn1) \<and> 0 < hp (s pkmn2) \<longrightarrow>
        battle_loop rnd s pkmn1 pkmn2 =
          (case battle_round rnd s pkmn1 pkmn2 of
             (Inl e, s') \<Rightarrow> Some (Inl e, s')
           | (Inr Break, s') \<Rightarrow> Some (Inr (), s')
           | (Inr Continue, s') \<Rightarrow> battle_loop (\<lambda>i. rnd (i + 2)) s' pkmn1 pkmn2))
   \<and> (pkmn1 \<noteq> pkmn2 \<longrightarrow> fst (battle_round rnd s pkmn1 pkmn2) = Inr Break \<longrightarrow>
        snd (battle_round rnd s pkmn1 pkmn2)
            (if speed (s pkmn1) \<ge> speed (s pkmn2) then pkmn1 else pkmn2)
          = s (if speed (s pkmn1) \<ge> speed (s pkmn2) then pkmn1 else pkmn2))"
proof (intro conjI impI)
  show "battle_round rnd s pkmn1 pkmn2 =
     (if speed (s pkmn1) \<ge> speed (s pkmn2) then spec_round s pkmn1 pkmn2
      else spec_round s pkmn2 pkmn1)"
    by (rule battle_round_spec)
  show "battle_loop rnd s pkmn1 pkmn2 =
          (case battle_round rnd s pkmn1 pkmn2 of
             (Inl e, s') \<Rightarrow> Some (Inl e, s')
           | (Inr Break, s') \<Rightarrow> Some (Inr (), s')
           | (Inr Continue, s') \<Rightarrow> battle_loop (\<lambda>i. rnd (i + 2)) s' pkmn1 pkmn2)"
    if "0 < hp (s pkmn1) \<and> 0 < hp (s pkmn2)"
    using that by (subst battle_loop.simps) simp
  show "snd (battle_round rnd s pkmn1 pkmn2)
            (if speed (s pkmn1) \<ge> speed (s pkmn2) then pkmn1 else pkmn2)
          = s (if speed (s pkmn1) \<ge> speed (s pkmn2) then pkmn1 else pkmn2)"
    if ne: "pkmn1 \<noteq> pkmn2" and br: "fst (battle_round rnd s pkmn1 pkmn2) = Inr Break"
  proof (cases "speed (s pkmn1) \<ge> speed (s pkmn2)")
    case True
    with br have "fst (spec_round s pkmn1 pkmn2) = Inr Break"
      by (simp add: battle_round_spec)
    from spec_round_Break_first [OF ne this] True show ?thesis
      by (simp add: battle_round_spec)
  next
    case False
    with br have "fst (spec_round s pkmn2 pkmn1) = Inr Break"
      by (simp add: battle_round_spec)
    from spec_round_Break_first [OF ne [symmetric] this] False show ?thesis
      by (simp add: battle_round_spec)
  qed
qed

text \<open>The second round of the first battle of main: hp 3 against hp 5.\<close>

lemma main_round2_eval:
  "fst (battle_round rnd (main_store(0 := (main_store 0)\<lparr>hp := 3\<rparr>, 1 := (main_store 1)\<lparr>hp := 5\<rparr>)) 0 1)
     = Inr Break"
  by (simp add: battle_round_def attack_opponent_cases attack_damage_def
        receive_damage_def main_store_simps main_pokemons_eq)

theorem round_order_witness:
  "0 < hp (main_store 0) \<and> 0 < hp (main_store 1) \<and> (0::nat) \<noteq> 1
   \<and> speed (main_store 0) \<ge> speed (main_store 1)
   \<and> battle_round (\<lambda>i. 0) main_store 0 1 = spec_round main_store 0 1
   \<and> fst (spec_round main_store 0 1) = Inr Continue
   \<and> hp (snd (spec_round main_store 0 1) 1) = 5
   \<and> hp (snd (spec_round main_store 0 1) 0) = 3
   \<and> battle_loop (\<lambda>i. 0) main_store 0 1
        = battle_loop (\<lambda>i. 0) (snd (battle_round (\<lambda>i. 0) main_store 0 1)) 0 1
   \<and> fst (battle_round (\<lambda>i. 0)
        (main_store(0 := (main_store 0)\<lparr>hp := 3\<rparr>, 1 := (main_store 1)\<lparr>hp := 5\<rparr>)) 0 1) = Inr Break
   \<and> hp (snd (battle_round (\<lambda>i. 0)
        (main_store(0 := (main_store 0)\<lparr>hp := 3\<rparr>, 1 := (main_store 1)\<lparr>hp := 5\<rparr>)) 0 1) 0) = 3"
proof -
  let ?s2 = "main_store(0 := (main_store 0)\<lparr>hp := 3\<rparr>, 1 := (main_store 1)\<lparr>hp := 5\<rparr>)"
  have h: "0 < hp (main_store 0)" "0 < hp (main_store 1)" "(0::nat) \<noteq> 1"
    "speed (main_store 0) \<ge> speed (main_store 1)"
    by (simp_all add: main_store_simps main_pokemons_eq)
  have sp: "fst (spec_round main_store 0 1) = Inr Continue"
    "hp (snd (spec_round main_store 0 1) 1) = 5"
    "hp (snd (spec_round main_store 0 1) 0) = 3"
    by (simp_all add: spec_round_def Let_def main_store_simps main_pokemons_eq)
  have sp2: "speed (?s2 0) \<ge> speed (?s2 1)"
    by (simp add: main_store_simps main_pokemons_eq)
  note a = round_order [of "\<lambda>i. 0" main_store 0 1]
  note b = round_order [of "\<lambda>i. 0" ?s2 0 1]
  from a h have r: "battle_round (\<lambda>i. 0) main_store 0 1 = spec_round main_store 0 1"
    by simp
  have c: "fst (battle_round (\<lambda>i. 0) main_store 0 1) = Inr Continue"
    using r sp by simp
  from a h have "battle_loop (\<lambda>i. 0) main_store 0 1 =
          (case battle_round (\<lambda>i. 0) main_store 0 1 of
             (Inl e, s') \<Rightarrow> Some (Inl e, s')
           | (Inr Break, s') \<Rightarrow> Some (Inr (), s')
           | (Inr Continue, s') \<Rightarrow> battle_loop (\<lambda>i. 0) s' 0 1)"
    by simp
  with c have l: "battle_loop (\<lambda>i. 0) main_store 0 1
        = battle_loop (\<lambda>i. 0) (snd (battle_round (\<lambda>i. 0) main_store 0 1)) 0 1"
    by (cases "battle_round (\<lambda>i. 0) main_store 0 1") simp
  from b [THEN conjunct2, THEN conjunct2] main_round2_eval [of "\<lambda>i. 0"] sp2
  have "snd (battle_round (\<lambda>i. 0) ?s2 0 1) 0 = ?s2 0"
    by simp
  then have k: "hp (snd (battle_round (\<lambda>i. 0) ?s2 0 1) 0) = 3"
    by simp
  from h r sp l main_round2_eval [of "\<lambda>i. 0"] k show ?thesis
    by simp
qed

section \<open>The battle history\<close>

text \<open>
  Claim C6. A battle that is resolved (returns a winner) appends exactly one record with
  the two names and the winner's name to the history and leaves what was there before
  as it was; a battle that raises appends nothing. \<^verbatim>\<open>battle\<close> is the only operation that
  writes to the history (\<^verbatim>\<open>export_history\<close> reads it).
\<close>

theorem battle_appends_one_record:
  "(\<forall>w a' s'. battle rnd self s pkmn1 pkmn2 = Some (Inr w, a', s') \<longrightarrow>
       history a' = history self @
          [[(''pkmn1'', name (s pkmn1)), (''pkmn2'', name (s pkmn2)), (''winner'', w)]]
       \<and> length (history a') = length (history self) + 1
       \<and> take (length (history self)) (history a') = history self)
   \<and> (\<forall>e a' s'. battle rnd self s pkmn1 pkmn2 = Some (Inl e, a', s') \<longrightarrow> a' = self)"
proof (intro conjI allI impI)
  fix w a' s'
  assume b: "battle rnd self s pkmn1 pkmn2 = Some (Inr w, a', s')"
  then have loop: "battle_loop rnd s pkmn1 pkmn2 = Some (Inr (), s')"
    and a': "a' = self\<lparr>history := history self @
              [[(''pkmn1'', name (s' pkmn1)), (''pkmn2'', name (s' pkmn2)), (''winner'', w)]]\<rparr>"
    by (simp_all add: battle_Inr_iff)
  have names: "name (s' pkmn1) = name (s pkmn1)" "name (s' pkmn2) = name (s pkmn2)"
    using battle_loop_frame [OF loop] by (simp_all add: same_but_hp_def)
  show h: "history a' = history self @
          [[(''pkmn1'', name (s pkmn1)), (''pkmn2'', name (s pkmn2)), (''winner'', w)]]"
    by (simp add: a' names)
  show "length (history a') = length (history self) + 1" by (simp add: h)
  show "take (length (history self)) (history a') = history self" by (simp add: h)
next
  fix e a' s'
  assume "battle rnd self s pkmn1 pkmn2 = Some (Inl e, a', s')"
  then show "a' = self" by (simp add: battle_Inl_iff)
qed

theorem battle_appends_one_record_witness:
  "\<exists>a' s'. battle (\<lambda>i. 0) BattleArena_init main_store 0 1 = Some (Inr ''Pikachu'', a', s')
     \<and> history a' = history BattleArena_init @
          [[(''pkmn1'', ''Pikachu''), (''pkmn2'', ''Charmander''), (''winner'', ''Pikachu'')]]
     \<and> length (history a') = length (history BattleArena_init) + 1"
proof -
  obtain a' s' where b: "battle (\<lambda>i. 0) BattleArena_init main_store 0 1 = Some (Inr ''Pikachu'', a', s')"
    using main_battle_eval by blast
  have n: "name (main_store 0) = ''Pikachu''" "name (main_store 1) = ''Charmander''"
    by (simp_all add: main_store_simps main_pokemons_eq)
  from battle_appends_one_record [of "\<lambda>i. 0" BattleArena_init main_store 0 1] b n
  have "history a' = history BattleArena_init @
          [[(''pkmn1'', ''Pikachu''), (''pkmn2'', ''Charmander''), (''winner'', ''Pikachu'')]]
     \<and> length (history a') = length (history BattleArena_init) + 1"
    by auto
  with b show ?thesis by blast
qed

section \<open>What an operation leaves alone\<close>

lemma battle_frame:
  assumes "battle rnd arena s pkmn1 pkmn2 = Some (out, a', s')"
  shows "same_but_hp (s r) (s' r)"
proof (cases out)
  case (Inl e)
  with assms have "battle_loop rnd s pkmn1 pkmn2 = Some (Inl e, s')"
    by (simp add: battle_Inl_iff)
  then show ?thesis by (rule battle_loop_frame)
next
  case (Inr w)
  with assms have "battle_loop rnd s pkmn1 pkmn2 = Some (Inr (), s')"
    by (simp add: battle_Inr_iff)
  then show ?thesis by (rule battle_loop_frame)
qed

text \<open>
  Claim C10. \<^verbatim>\<open>receive_damage\<close>, \<^verbatim>\<open>attack_opponent\<close>, the battle loop and \<^verbatim>\<open>battle\<close> change
  no field of any Pokemon other than hp: id, name, type, attack, defense, speed, moves
  and sort_index are as before, whether the operation returns or raises. The
  sort_index is set to the initial hp when the Pokemon is made and stays there, so
  once a Pokemon with positive hp takes positive damage its hp is below its sort_index.
\<close>

theorem only_hp_changes:
  "same_but_hp (s r) (receive_damage s e dmg r)
   \<and> same_but_hp (s r) (snd (attack_opponent k s self opponent) r)
   \<and> (\<forall>out s'. battle_loop rnd s pkmn1 pkmn2 = Some (out, s') \<longrightarrow> same_but_hp (s r) (s' r))
   \<and> (\<forall>out a' s'. battle rnd arena s pkmn1 pkmn2 = Some (out, a', s') \<longrightarrow>
          same_but_hp (s r) (s' r))
   \<and> sort_index (fst (Pokemon_init gen n t h a d sp ms)) = h
   \<and> hp (fst (Pokemon_init gen n t h a d sp ms)) = h
   \<and> (sort_index (s e) = hp (s e) \<longrightarrow> 0 < hp (s e) \<longrightarrow> 0 < dmg \<longrightarrow>
        sort_index (receive_damage s e dmg e) = hp (s e)
        \<and> hp (receive_damage s e dmg e) < sort_index (receive_damage s e dmg e))"
proof (intro conjI allI impI)
  show "same_but_hp (s r) (receive_damage s e dmg r)"
    by (rule receive_damage_frame)
  show "same_but_hp (s r) (snd (attack_opponent k s self opponent) r)"
    by (rule attack_opponent_frame)
  show "same_but_hp (s r) (s' r)" if "battle_loop rnd s pkmn1 pkmn2 = Some (out, s')" for out s'
    using that by (rule battle_loop_frame)
  show "same_but_hp (s r) (s' r)" if "battle rnd arena s pkmn1 pkmn2 = Some (out, a', s')"
    for out a' s'
    using that by (rule battle_frame)
  show "sort_index (fst (Pokemon_init gen n t h a d sp ms)) = h"
    by (simp add: Pokemon_init_def infinite_id_generator_next_def)
  show "hp (fst (Pokemon_init gen n t h a d sp ms)) = h"
    by (simp add: Pokemon_init_def infinite_id_generator_next_def)
next
  assume "sort_index (s e) = hp (s e)" "0 < hp (s e)" "0 < dmg"
  then show "sort_index (receive_damage s e dmg e) = hp (s e)"
    and "hp (receive_damage s e dmg e) < sort_index (receive_damage s e dmg e)"
    by (simp_all add: receive_damage_def)
qed

theorem only_hp_changes_witness:
  "sort_index (main_store 1) = hp (main_store 1) \<and> 0 < hp (main_store 1) \<and> (0::int) < 34
   \<and> sort_index (receive_damage main_store 1 34 1) = 39
   \<and> hp (receive_damage main_store 1 34 1) = 5
   \<and> (\<exists>a' s'. battle (\<lambda>i. 0) BattleArena_init main_store 0 1 = Some (Inr ''Pikachu'', a', s')
         \<and> same_but_hp (main_store 1) (s' 1) \<and> sort_index (s' 1) = 39 \<and> hp (s' 1) = 0)"
proof -
  have h: "sort_index (main_store 1) = hp (main_store 1)" "0 < hp (main_store 1)"
    "hp (main_store 1) = 39"
    by (simp_all add: main_store_simps main_pokemons_eq)
  have v: "hp (receive_damage main_store 1 34 1) = 5"
    by (simp add: receive_damage_def main_store_simps main_pokemons_eq)
  obtain a' s' where b: "battle (\<lambda>i. 0) BattleArena_init main_store 0 1 = Some (Inr ''Pikachu'', a', s')"
    and hp: "hp (s' 1) = 0"
    using main_battle_eval by blast
  note t = only_hp_changes [of main_store 1 1 34 0 0 1 "\<lambda>i. 0" 0 1 BattleArena_init]
  from t h have i: "sort_index (receive_damage main_store 1 34 1) = 39"
    by simp
  from t b have f: "same_but_hp (main_store 1) (s' 1)"
    by blast
  then have "sort_index (s' 1) = 39"
    using h by (simp add: same_but_hp_def)
  with h v i b f hp show ?thesis by auto
qed

section \<open>Statistics\<close>

lemma py_max_eq: "xs \<noteq> [] \<Longrightarrow> py_max xs = Inr (Max (set xs))"
proof (cases xs)
  case Nil
  assume "xs \<noteq> []"
  with Nil show ?thesis by simp
next
  case (Cons x rest)
  have "(\<lambda>item maxitem. if item > maxitem then item else maxitem) = (max :: int \<Rightarrow> int \<Rightarrow> int)"
    by (auto simp: fun_eq_iff max_def)
  then show ?thesis
    by (simp add: py_max_def Cons Max.set_eq_fold [symmetric] del: set_simps)
qed

lemma py_min_eq: "xs \<noteq> [] \<Longrightarrow> py_min xs = Inr (Min (set xs))"
proof (cases xs)
  case Nil
  assume "xs \<noteq> []"
  with Nil show ?thesis by simp
next
  case (Cons x rest)
  have "(\<lambda>item minitem. if item < minitem then item else minitem) = (min :: int \<Rightarrow> int \<Rightarrow> int)"
    by (auto simp: fun_eq_iff min_def)
  then show ?thesis
    by (simp add: py_min_def Cons Min.set_eq_fold [symmetric] del: set_simps)
qed

subsection \<open>Rounding a fraction to a double\<close>

lemma bit_length_pos: "0 < n \<Longrightarrow> 0 < bit_length n"
  by (subst bit_length.simps) simp

lemma bit_length_bounds:
  "0 < n \<Longrightarrow> 2 ^ (bit_length n - 1) \<le> n \<and> n < 2 ^ bit_length n"
proof (induction n rule: bit_length.induct)
  case (1 n)
  show ?case
  proof (cases "n = 1")
    case True
    have "bit_length 1 = 1"
      by (simp add: bit_length.simps)
    with True show ?thesis by simp
  next
    case False
    with 1(2) have h: "0 < n div 2" by simp
    from 1(2) have nle: "\<not> n \<le> 0" by simp
    note ih = 1(1) [OF nle h]
    have b: "bit_length n = Suc (bit_length (n div 2))"
      using nle by (subst bit_length.simps) simp
    obtain k where k: "bit_length (n div 2) = Suc k"
      using bit_length_pos [OF h] by (cases "bit_length (n div 2)") auto
    from ih k have lo: "2 ^ k \<le> n div 2" and hi: "n div 2 < 2 ^ Suc k" by simp_all
    have "2 * 2 ^ k \<le> n" using lo by linarith
    moreover have "n < 2 * 2 ^ Suc k" using hi by linarith
    ultimately show ?thesis by (simp add: b k)
  qed
qed

lemma two_power_le_of_int: "2 ^ k \<le> n \<Longrightarrow> (2::rat) ^ k \<le> of_int n"
proof -
  assume "2 ^ k \<le> n"
  then have "(of_int (2 ^ k) :: rat) \<le> of_int n" by (simp only: of_int_le_iff)
  then show ?thesis by simp
qed

lemma of_int_le_two_power: "n \<le> 2 ^ k \<Longrightarrow> (of_int n :: rat) \<le> 2 ^ k"
proof -
  assume "n \<le> 2 ^ k"
  then have "(of_int n :: rat) \<le> of_int (2 ^ k)" by (simp only: of_int_le_iff)
  then show ?thesis by simp
qed

text \<open>\<open>floor_log2 x\<close> is the exponent of the binade of \<open>x\<close>.\<close>

lemma floor_log2_bounds:
  assumes "0 < x"
  shows "2 powi floor_log2 x \<le> x \<and> x < 2 powi (floor_log2 x + 1)"
proof (cases "1 \<le> x")
  case True
  define n where "n = \<lfloor>x\<rfloor>"
  have n: "0 < n" using True by (simp add: n_def)
  have e: "floor_log2 x = int (bit_length n) - 1"
    using True by (simp add: floor_log2_def n_def)
  obtain k where k: "bit_length n = Suc k"
    using bit_length_pos [OF n] by (cases "bit_length n") auto
  from bit_length_bounds [OF n] k have lo: "2 ^ k \<le> n" and hi: "n < 2 ^ Suc k" by simp_all
  have "(2::rat) ^ k \<le> of_int n" using lo by (rule two_power_le_of_int)
  also have "\<dots> \<le> x" by (simp add: n_def)
  finally have a: "(2::rat) ^ k \<le> x" .
  have "n + 1 \<le> 2 ^ Suc k" using hi by simp
  then have "(of_int (n + 1) :: rat) \<le> 2 ^ Suc k" by (rule of_int_le_two_power)
  moreover have "x < of_int (n + 1)" unfolding n_def by linarith
  ultimately have b: "x < 2 ^ Suc k" by linarith
  have e1: "floor_log2 x = int k" by (simp add: e k)
  have e2: "int k + 1 = int (Suc k)" by simp
  show ?thesis unfolding e1 e2 power_int_of_nat using a b by simp
next
  case False
  define c where "c = \<lceil>1 / x\<rceil>"
  from False assms have y: "1 < 1 / x" by simp
  then have c2: "2 \<le> c" unfolding c_def by linarith
  then have n: "0 < c - 1" by simp
  have e: "floor_log2 x = - int (bit_length (c - 1))"
    using False by (simp add: floor_log2_def c_def)
  obtain k where k: "bit_length (c - 1) = Suc k"
    using bit_length_pos [OF n] by (cases "bit_length (c - 1)") auto
  from bit_length_bounds [OF n] k have lo: "2 ^ k \<le> c - 1" and hi: "c - 1 < 2 ^ Suc k" by simp_all
  have "c \<le> 2 ^ Suc k" using hi by simp
  then have "(of_int c :: rat) \<le> 2 ^ Suc k" by (rule of_int_le_two_power)
  moreover have "1 / x \<le> of_int c" unfolding c_def by linarith
  ultimately have "1 / x \<le> 2 ^ Suc k" by linarith
  then have "1 \<le> 2 ^ Suc k * x" using assms
    by (simp only: pos_divide_le_eq)
  then have a: "1 / 2 ^ Suc k \<le> x"
    by (simp only: pos_divide_le_eq zero_less_power zero_less_numeral mult.commute)
  have "(2::rat) ^ k \<le> of_int (c - 1)" using lo by (rule two_power_le_of_int)
  moreover have "of_int (c - 1) < 1 / x" unfolding c_def by linarith
  ultimately have "2 ^ k < 1 / x" by linarith
  then have "2 ^ k * x < 1" using assms
    by (simp only: pos_less_divide_eq)
  then have b: "x < 1 / 2 ^ k"
    by (simp only: pos_less_divide_eq zero_less_power zero_less_numeral mult.commute)
  have e1: "floor_log2 x = - int (Suc k)" by (simp add: e k)
  have e2: "- int (Suc k) + 1 = - int k" by simp
  show ?thesis
    unfolding e1 e2 power_int_minus power_int_of_nat inverse_eq_divide using a b
    by simp
qed

lemma round_half_even_error: "\<bar>of_int (round_half_even y) - y\<bar> \<le> 1 / 2"
proof -
  define f where "f = \<lfloor>y\<rfloor>"
  define r where "r = y - of_int f"
  have r: "0 \<le> r" "r < 1" unfolding r_def f_def by linarith+
  have y: "y = of_int f + r" by (simp add: r_def)
  have d: "round_half_even y =
      (if r < 1 / 2 then f else if 1 / 2 < r then f + 1 else if even f then f else f + 1)"
    unfolding round_half_even_def Let_def r_def f_def by (rule refl)
  consider "r < 1 / 2" | "1 / 2 < r" | "r = 1 / 2" by linarith
  then show ?thesis
  proof cases
    case 1
    then have "round_half_even y = f"
      by (simp add: d)
    with 1 r show ?thesis by (simp add: y)
  next
    case 2
    then have "round_half_even y = f + 1"
      by (simp add: d)
    with 2 r show ?thesis by (simp add: y)
  next
    case 3
    then have "round_half_even y = f \<or> round_half_even y = f + 1"
      by (simp add: d)
    with 3 show ?thesis by (auto simp: y)
  qed
qed

lemma round_half_even_of_int: "round_half_even (of_int i) = i"
  by (simp add: round_half_even_def)

lemma float_of_fraction_unfold:
  assumes "x \<noteq> 0"
  shows "float_of_fraction x =
     (if 2 ^ 1024 \<le> \<bar>rat_of_int (round_half_even (x / 2 powi (max (floor_log2 \<bar>x\<bar>) (- 1022) - 52)))
                       * 2 powi (max (floor_log2 \<bar>x\<bar>) (- 1022) - 52)\<bar>
      then Inl OverflowError
      else Inr (of_int (round_half_even (x / 2 powi (max (floor_log2 \<bar>x\<bar>) (- 1022) - 52)))
                  * 2 powi (max (floor_log2 \<bar>x\<bar>) (- 1022) - 52)))"
  using assms by (simp add: float_of_fraction_def Let_def)

text \<open>Rounding to a multiple of \<open>2 powi (e - 52)\<close> moves a number by at most half of it.\<close>

lemma rounded_error:
  fixes x :: rat
  shows "\<bar>of_int (round_half_even (x / 2 powi (e - 52))) * 2 powi (e - 52) - x\<bar> \<le> 2 powi (e - 53)"
proof -
  define q :: rat where "q = 2 powi (e - 52)"
  have q: "0 < q" by (simp add: q_def)
  have h: "2 powi (e - 53) = q / 2"
  proof -
    have "(2::rat) powi (e - 53 + 1) = 2 powi (e - 53) * 2"
      by (rule power_int_add_1) simp
    moreover have "e - 53 + 1 = e - 52" by simp
    ultimately show ?thesis by (simp add: q_def)
  qed
  have "of_int (round_half_even (x / q)) * q - x = (of_int (round_half_even (x / q)) - x / q) * q"
    using q by (simp add: left_diff_distrib)
  then have "\<bar>of_int (round_half_even (x / q)) * q - x\<bar> = \<bar>of_int (round_half_even (x / q)) - x / q\<bar> * q"
    using q by (simp add: abs_mult)
  also have "\<dots> \<le> 1 / 2 * q"
    using round_half_even_error [of "x / q"] q by (intro mult_right_mono) simp_all
  finally show ?thesis by (simp add: h q_def)
qed

lemma float_of_fraction_error:
  assumes "float_of_fraction x = Inr f"
  shows "\<bar>f - x\<bar> \<le> 2 powi (max (floor_log2 \<bar>x\<bar>) (- 1022) - 53)"
proof (cases "x = 0")
  case True
  with assms show ?thesis by (simp add: float_of_fraction_def)
next
  case False
  from assms have "f = of_int (round_half_even (x / 2 powi (max (floor_log2 \<bar>x\<bar>) (- 1022) - 52)))
                  * 2 powi (max (floor_log2 \<bar>x\<bar>) (- 1022) - 52)"
    unfolding float_of_fraction_unfold [OF False] by (simp split: if_splits)
  then show ?thesis by (simp only: rounded_error)
qed

text \<open>In the normal range a double is within a relative error of \<open>1 / 2 ^ 53\<close> of the fraction.\<close>

lemma float_of_fraction_relative_error:
  assumes f: "float_of_fraction x = Inr f" and n: "2 powi (- 1022) \<le> \<bar>x\<bar>"
  shows "\<bar>f - x\<bar> \<le> \<bar>x\<bar> / 2 ^ 53"
proof -
  define e where "e = max (floor_log2 \<bar>x\<bar>) (- 1022)"
  have pos: "0 < \<bar>x\<bar>"
  proof -
    have "(0::rat) < 2 powi (- 1022)" by (rule zero_less_power_int) simp
    with n show ?thesis by linarith
  qed
  have le: "2 powi e \<le> \<bar>x\<bar>"
  proof (cases "floor_log2 \<bar>x\<bar> \<le> - 1022")
    case True
    then have "e = - 1022" by (simp add: e_def)
    with n show ?thesis by simp
  next
    case False
    then have "e = floor_log2 \<bar>x\<bar>" by (simp add: e_def)
    with floor_log2_bounds [OF pos] show ?thesis by simp
  qed
  have "(2::rat) powi (e - 53) = 2 powi e / 2 powi 53"
    by (rule power_int_diff) simp
  then have "(2::rat) powi (e - 53) = 2 powi e / 2 ^ 53" by simp
  also have "\<dots> \<le> \<bar>x\<bar> / 2 ^ 53"
    using le by (simp add: divide_right_mono)
  finally have "(2::rat) powi (e - 53) \<le> \<bar>x\<bar> / 2 ^ 53" .
  with float_of_fraction_error [OF f] show ?thesis unfolding e_def by linarith
qed

text \<open>A fraction below \<open>2 ^ 1023\<close> in magnitude does not overflow.\<close>

lemma float_of_fraction_in_range:
  assumes "\<bar>x\<bar> < 2 ^ 1023"
  shows "\<exists>f. float_of_fraction x = Inr f"
proof (cases "x = 0")
  case True
  then show ?thesis by (simp add: float_of_fraction_def)
next
  case False
  define e where "e = max (floor_log2 \<bar>x\<bar>) (- 1022)"
  define r :: rat where "r = of_int (round_half_even (x / 2 powi (e - 52))) * 2 powi (e - 52)"
  from False have pos: "0 < \<bar>x\<bar>" by simp
  have e: "e \<le> 1023"
  proof (rule ccontr)
    assume "\<not> e \<le> 1023"
    then have g: "1023 \<le> floor_log2 \<bar>x\<bar>" by (simp add: e_def)
    have "(2::rat) powi 1023 \<le> 2 powi floor_log2 \<bar>x\<bar>"
      using g by (rule power_int_increasing) simp
    also have "\<dots> \<le> \<bar>x\<bar>" using floor_log2_bounds [OF pos] by simp
    finally show False using assms by simp
  qed
  have "(2::rat) powi (e - 53) \<le> 2 powi 1023"
    by (rule power_int_increasing) (use e in simp_all)
  then have s: "(2::rat) powi (e - 53) \<le> 2 ^ 1023" by simp
  have "\<bar>r - x\<bar> \<le> 2 powi (e - 53)" unfolding r_def by (rule rounded_error)
  with s assms have "\<bar>r\<bar> < 2 ^ 1023 + 2 ^ 1023" by linarith
  then have "\<not> 2 ^ 1024 \<le> \<bar>r\<bar>" by simp
  then show ?thesis
    unfolding float_of_fraction_unfold [OF False] e_def [symmetric] r_def [symmetric] by simp
qed

text \<open>
  A fraction that is itself a double (an integer of fewer than 54 bits times a power of
  two not below \<open>2 powi (- 1074)\<close>) is left as it is.
\<close>

lemma float_of_fraction_exact:
  assumes x: "x = of_int i * 2 powi k" and i: "\<bar>i\<bar> < 2 ^ 53" and k: "- 1074 \<le> k"
  shows "float_of_fraction x = (if 2 ^ 1024 \<le> \<bar>x\<bar> then Inl OverflowError else Inr x)"
proof (cases "x = 0")
  case True
  then show ?thesis by (simp add: float_of_fraction_def)
next
  case False
  define e where "e = max (floor_log2 \<bar>x\<bar>) (- 1022)"
  from False have pos: "0 < \<bar>x\<bar>" by simp
  have ek: "e - 52 \<le> k"
  proof (cases "floor_log2 \<bar>x\<bar> \<le> - 1022")
    case True
    then have "e = - 1022" by (simp add: e_def)
    with k show ?thesis by simp
  next
    case False
    then have ee: "e = floor_log2 \<bar>x\<bar>" by (simp add: e_def)
    have "(of_int \<bar>i\<bar> :: rat) < of_int (2 ^ 53)" using i by (simp only: of_int_less_iff)
    then have "\<bar>of_int i :: rat\<bar> < 2 ^ 53" by simp
    then have "\<bar>of_int i :: rat\<bar> * 2 powi k < 2 ^ 53 * 2 powi k"
      by (rule mult_strict_right_mono) simp
    moreover have "\<bar>x\<bar> = \<bar>of_int i :: rat\<bar> * 2 powi k" by (simp add: x abs_mult)
    moreover have "(2::rat) powi (53 + k) = 2 powi 53 * 2 powi k"
      by (rule power_int_add) simp
    ultimately have "\<bar>x\<bar> < 2 powi (53 + k)" by simp
    moreover have "2 powi e \<le> \<bar>x\<bar>" using floor_log2_bounds [OF pos] by (simp add: ee)
    ultimately have lt: "(2::rat) powi e < 2 powi (53 + k)" by linarith
    have "e < 53 + k"
    proof (rule ccontr)
      assume "\<not> e < 53 + k"
      then have "53 + k \<le> e" by simp
      then have "(2::rat) powi (53 + k) \<le> 2 powi e" by (rule power_int_increasing) simp
      with lt show False by simp
    qed
    then show ?thesis by simp
  qed
  define n where "n = nat (k - (e - 52))"
  have kn: "k = (e - 52) + int n" using ek by (simp add: n_def)
  have p: "(2::rat) powi k = 2 powi (e - 52) * 2 ^ n"
    unfolding kn by (subst power_int_add) simp_all
  have q0: "(2::rat) powi (e - 52) \<noteq> 0" by simp
  have "x / 2 powi (e - 52) = of_int i * 2 ^ n"
    unfolding x p using q0 by simp
  also have "\<dots> = of_int (i * 2 ^ n)" by simp
  finally have "round_half_even (x / 2 powi (e - 52)) = i * 2 ^ n"
    by (simp only: round_half_even_of_int)
  then have "of_int (round_half_even (x / 2 powi (e - 52))) * 2 powi (e - 52) = x"
    unfolding x p by simp
  then show ?thesis
    unfolding float_of_fraction_unfold [OF False] e_def [symmetric] by simp
qed

text \<open>The first power of two beyond the doubles: \<^verbatim>\<open>float(Fraction(2 ** 1024))\<close> raises.\<close>

lemma float_of_fraction_overflow: "float_of_fraction (2 ^ 1024) = Inl OverflowError"
  using float_of_fraction_exact [of "2 ^ 1024" 1 1024] by simp

lemma floor_rat_numeral: "\<lfloor>numeral a / numeral b :: rat\<rfloor> = numeral a div numeral b"
  using floor_divide_of_int_eq [of "numeral a" "numeral b", where ?'a = rat] by simp

text \<open>\<^verbatim>\<open>float(Fraction(163, 4))\<close> is 40.75; \<^verbatim>\<open>float(Fraction(118, 3))\<close> is 39.333333333333336,
  which is \<open>5535674541976235 / 2 ^ 47\<close>.\<close>

lemma float_of_fraction_163_4: "float_of_fraction (163 / 4) = Inr (163 / 4)"
  by (simp add: float_of_fraction_def Let_def floor_log2_def round_half_even_def bit_length.simps
        floor_rat_numeral)

lemma float_of_fraction_118_3:
  "float_of_fraction (118 / 3) = Inr (5535674541976235 / 140737488355328)"
  by (simp add: float_of_fraction_def Let_def floor_log2_def round_half_even_def bit_length.simps
        floor_rat_numeral)

subsection \<open>The statistics of a roster\<close>

lemma mean_whole_iff:
  assumes "0 < n"
  shows "(of_int t / of_nat n :: rat) \<in> \<int> \<longleftrightarrow> int n dvd t"
proof
  assume "(of_int t / of_nat n :: rat) \<in> \<int>"
  then obtain k where k: "(of_int t / of_nat n :: rat) = of_int k" by (auto elim: Ints_cases)
  from assms have "(of_nat n :: rat) \<noteq> 0" by simp
  with k have "(of_int t :: rat) = of_int k * of_nat n" by (simp add: field_simps)
  then have "(of_int t :: rat) = of_int (k * int n)" by simp
  then have "t = k * int n" by (simp only: of_int_eq_iff)
  then show "int n dvd t" by simp
next
  assume "int n dvd t"
  then obtain k where "t = int n * k" by (auto elim: dvdE)
  with assms have "(of_int t / of_nat n :: rat) = of_int k" by simp
  then show "(of_int t / of_nat n :: rat) \<in> \<int>" by simp
qed

lemma mean_floor: "\<lfloor>of_int t / of_nat n :: rat\<rfloor> = t div int n"
  using floor_divide_of_int_eq [of t "int n", where ?'a = rat] by simp

lemma mean_nonempty:
  assumes "data \<noteq> []"
  shows "mean data =
           (if (of_int (sum_list data) / of_nat (length data) :: rat) \<in> \<int>
            then Inr (PyInt \<lfloor>of_int (sum_list data) / of_nat (length data) :: rat\<rfloor>)
            else (case float_of_fraction (of_int (sum_list data) / of_nat (length data)) of
                    Inl e \<Rightarrow> Inl e
                  | Inr f \<Rightarrow> Inr (PyFloat f)))"
proof -
  from assms have "0 < length data" by simp
  from mean_whole_iff [OF this] assms show ?thesis
    by (simp add: mean_def mean_floor)
qed

lemma pokemon_statistics_nonempty:
  assumes "pokemon_list \<noteq> []"
  shows "pokemon_statistics pokemon_list =
           (case mean (map hp pokemon_list) of
              Inl e \<Rightarrow> Inl e
            | Inr m \<Rightarrow> Inr \<lparr>average_hp = m,
                             max_hp = Max (hp ` set pokemon_list),
                             min_hp = Min (hp ` set pokemon_list)\<rparr>)"
proof -
  from assms have ne: "map hp pokemon_list \<noteq> []" by simp
  show ?thesis
    by (cases "mean (map hp pokemon_list)")
       (simp_all add: pokemon_statistics_def Let_def py_max_eq [OF ne] py_min_eq [OF ne])
qed

lemma pokemon_statistics_empty: "pokemon_statistics [] = Inl StatisticsError"
  by (simp add: pokemon_statistics_def mean_def)

text \<open>
  The specification's sentence C7 calls the average the exact arithmetic mean. It is
  not on the first three Pokemon of main, with hp 35, 39 and 44: their mean is
  \<open>118 / 3\<close>, and \<^verbatim>\<open>statistics.mean\<close> returns the double next to it,
  39.333333333333336, which is \<open>5535674541976235 / 2 ^ 47\<close>.
\<close>

theorem pokemon_statistics_mean_counterexample:
  "take 3 main_pokemons \<noteq> []
   \<and> map hp (take 3 main_pokemons) = [35, 39, 44]
   \<and> of_int (\<Sum>p\<leftarrow>take 3 main_pokemons. hp p) / of_nat (length (take 3 main_pokemons))
       = (118 / 3 :: rat)
   \<and> pokemon_statistics (take 3 main_pokemons) =
       Inr \<lparr>average_hp = PyFloat (5535674541976235 / 140737488355328), max_hp = 44, min_hp = 35\<rparr>
   \<and> (5535674541976235 / 140737488355328 :: rat) \<noteq> 118 / 3"
  by (simp add: main_pokemons_eq pokemon_statistics_def Let_def mean_def py_max_def py_min_def
        float_of_fraction_118_3)

text \<open>
  Claim C7, amended. On a non-empty roster \<^verbatim>\<open>pokemon_statistics\<close> returns the maximum and
  the minimum of the hp values and, as the average, their arithmetic mean \<open>m\<close> as
  \<^verbatim>\<open>statistics.mean\<close> represents it: the integer \<open>m\<close> itself when \<open>m\<close> is whole, and
  otherwise \<open>m\<close> rounded to a double. The rounding cannot fail when \<open>m\<close> is below
  \<open>2 ^ 1023\<close> in magnitude (beyond the doubles the call raises \<^verbatim>\<open>OverflowError\<close>); the
  double is within a relative error of \<open>1 / 2 ^ 53\<close> of \<open>m\<close> (for \<open>m\<close> in the normal range),
  and it is \<open>m\<close> itself when \<open>m\<close> is a double. On the hp values 35, 39, 44, 45 the result
  is 40.75, 45 and 35.
\<close>

theorem pokemon_statistics_values:
  assumes ne: "pokemon_list \<noteq> []"
      and m: "m = of_int (\<Sum>p\<leftarrow>pokemon_list. hp p) / of_nat (length pokemon_list)"
  shows "(m \<in> \<int> \<longrightarrow>
            pokemon_statistics pokemon_list =
              Inr \<lparr>average_hp = PyInt \<lfloor>m\<rfloor>,
                   max_hp = Max (hp ` set pokemon_list),
                   min_hp = Min (hp ` set pokemon_list)\<rparr>)
       \<and> (m \<notin> \<int> \<longrightarrow>
            pokemon_statistics pokemon_list =
              (case float_of_fraction m of
                 Inl e \<Rightarrow> Inl e
               | Inr f \<Rightarrow> Inr \<lparr>average_hp = PyFloat f,
                                max_hp = Max (hp ` set pokemon_list),
                                min_hp = Min (hp ` set pokemon_list)\<rparr>))
       \<and> (\<bar>m\<bar> < 2 ^ 1023 \<longrightarrow> (\<exists>f. float_of_fraction m = Inr f))
       \<and> (\<forall>f. float_of_fraction m = Inr f \<longrightarrow>
            (2 powi (- 1022) \<le> \<bar>m\<bar> \<longrightarrow> \<bar>f - m\<bar> \<le> \<bar>m\<bar> / 2 ^ 53)
            \<and> (\<forall>i k. m = of_int i * 2 powi k \<and> \<bar>i\<bar> < 2 ^ 53 \<and> - 1074 \<le> k \<longrightarrow> f = m))
       \<and> (map hp pokemon_list = [35, 39, 44, 45] \<longrightarrow>
            pokemon_statistics pokemon_list =
              Inr \<lparr>average_hp = PyFloat 40.75, max_hp = 45, min_hp = 35\<rparr>)"
proof (intro conjI impI allI)
  from ne have d: "map hp pokemon_list \<noteq> []" by simp
  note mn = mean_nonempty [OF d, folded m, unfolded length_map]
  have mm: "m = of_int (sum_list (map hp pokemon_list)) / of_nat (length (map hp pokemon_list))"
    by (simp add: m)
  have mean_eq: "mean (map hp pokemon_list) =
           (if m \<in> \<int> then Inr (PyInt \<lfloor>m\<rfloor>)
            else (case float_of_fraction m of Inl e \<Rightarrow> Inl e | Inr f \<Rightarrow> Inr (PyFloat f)))"
    unfolding mm by (rule mean_nonempty [OF d])
  show "pokemon_statistics pokemon_list =
              Inr \<lparr>average_hp = PyInt \<lfloor>m\<rfloor>,
                   max_hp = Max (hp ` set pokemon_list),
                   min_hp = Min (hp ` set pokemon_list)\<rparr>" if "m \<in> \<int>"
    using that by (simp add: pokemon_statistics_nonempty [OF ne] mean_eq)
  show "pokemon_statistics pokemon_list =
              (case float_of_fraction m of
                 Inl e \<Rightarrow> Inl e
               | Inr f \<Rightarrow> Inr \<lparr>average_hp = PyFloat f,
                                max_hp = Max (hp ` set pokemon_list),
                                min_hp = Min (hp ` set pokemon_list)\<rparr>)" if "m \<notin> \<int>"
    using that by (simp add: pokemon_statistics_nonempty [OF ne] mean_eq split: sum.split)
  show "\<exists>f. float_of_fraction m = Inr f" if "\<bar>m\<bar> < 2 ^ 1023"
    using that by (rule float_of_fraction_in_range)
  show "\<bar>f - m\<bar> \<le> \<bar>m\<bar> / 2 ^ 53" if "float_of_fraction m = Inr f" "2 powi (- 1022) \<le> \<bar>m\<bar>" for f
    using that by (rule float_of_fraction_relative_error)
  show "f = m" if "float_of_fraction m = Inr f"
      "m = of_int i * 2 powi k \<and> \<bar>i\<bar> < 2 ^ 53 \<and> - 1074 \<le> k" for f i k
  proof -
    from that(2) have "float_of_fraction m = (if 2 ^ 1024 \<le> \<bar>m\<bar> then Inl OverflowError else Inr m)"
      by (intro float_of_fraction_exact [of m i k]) simp_all
    with that(1) show ?thesis by (simp split: if_splits)
  qed
  show "pokemon_statistics pokemon_list =
              Inr \<lparr>average_hp = PyFloat 40.75, max_hp = 45, min_hp = 35\<rparr>"
    if "map hp pokemon_list = [35, 39, 44, 45]"
    using that
    by (simp add: pokemon_statistics_def Let_def mean_def py_max_def py_min_def
          float_of_fraction_163_4)
qed

theorem pokemon_statistics_values_witness:
  "main_pokemons \<noteq> []
   \<and> (163 / 4 :: rat) = of_int (\<Sum>p\<leftarrow>main_pokemons. hp p) / of_nat (length main_pokemons)
   \<and> (163 / 4 :: rat) \<notin> \<int>
   \<and> \<bar>163 / 4 :: rat\<bar> < 2 ^ 1023
   \<and> float_of_fraction (163 / 4) = Inr (163 / 4)
   \<and> 2 powi (- 1022) \<le> \<bar>163 / 4 :: rat\<bar>
   \<and> (163 / 4 :: rat) = of_int 163 * 2 powi (- 2) \<and> \<bar>163 :: int\<bar> < 2 ^ 53 \<and> (- 1074 :: int) \<le> - 2
   \<and> map hp main_pokemons = [35, 39, 44, 45]
   \<and> pokemon_statistics main_pokemons = Inr \<lparr>average_hp = PyFloat (163 / 4), max_hp = 45, min_hp = 35\<rparr>
   \<and> Max (hp ` set main_pokemons) = 45 \<and> Min (hp ` set main_pokemons) = 35
   \<and> \<bar>163 / 4 - 163 / 4 :: rat\<bar> \<le> \<bar>163 / 4\<bar> / 2 ^ 53
   \<and> take 1 main_pokemons \<noteq> []
   \<and> (35 :: rat) = of_int (\<Sum>p\<leftarrow>take 1 main_pokemons. hp p) / of_nat (length (take 1 main_pokemons))
   \<and> (35 :: rat) \<in> \<int>
   \<and> pokemon_statistics (take 1 main_pokemons) = Inr \<lparr>average_hp = PyInt 35, max_hp = 35, min_hp = 35\<rparr>"
proof -
  have a: "main_pokemons \<noteq> []"
    and b: "(163 / 4 :: rat) = of_int (\<Sum>p\<leftarrow>main_pokemons. hp p) / of_nat (length main_pokemons)"
    and l: "map hp main_pokemons = [35, 39, 44, 45]"
    by (simp_all add: main_pokemons_eq)
  have "(of_int 163 / of_nat 4 :: rat) \<notin> \<int>"
    by (subst mean_whole_iff) simp_all
  then have c: "(163 / 4 :: rat) \<notin> \<int>" by simp
  have d: "\<bar>163 / 4 :: rat\<bar> < 2 ^ 1023" by simp
  have e: "float_of_fraction (163 / 4) = Inr (163 / 4)" by (rule float_of_fraction_163_4)
  have f: "2 powi (- 1022) \<le> \<bar>163 / 4 :: rat\<bar>"
    by (simp add: power_int_minus_divide)
  have g: "(163 / 4 :: rat) = of_int 163 * 2 powi (- 2)" "\<bar>163 :: int\<bar> < 2 ^ 53" "(- 1074 :: int) \<le> - 2"
    by (simp_all add: power_int_minus_divide)
  note t = pokemon_statistics_values [OF a b]
  from t c e have v1: "pokemon_statistics main_pokemons =
      Inr \<lparr>average_hp = PyFloat (163 / 4),
           max_hp = Max (hp ` set main_pokemons), min_hp = Min (hp ` set main_pokemons)\<rparr>"
    by simp
  from t [THEN conjunct2, THEN conjunct2, THEN conjunct2, THEN conjunct2] l
  have v2: "pokemon_statistics main_pokemons =
      Inr \<lparr>average_hp = PyFloat (163 / 4), max_hp = 45, min_hp = 35\<rparr>"
    by simp
  from v1 v2 have mx: "Max (hp ` set main_pokemons) = 45" "Min (hp ` set main_pokemons) = 35"
    by simp_all
  from t e f have r: "\<bar>163 / 4 - 163 / 4 :: rat\<bar> \<le> \<bar>163 / 4\<bar> / 2 ^ 53"
    by blast
  have a1: "take 1 main_pokemons \<noteq> []"
    and b1: "(35 :: rat) = of_int (\<Sum>p\<leftarrow>take 1 main_pokemons. hp p)
                / of_nat (length (take 1 main_pokemons))"
    by (simp_all add: main_pokemons_eq)
  have c1: "(35 :: rat) \<in> \<int>" by simp
  from pokemon_statistics_values [OF a1 b1] c1
  have "pokemon_statistics (take 1 main_pokemons) =
      Inr \<lparr>average_hp = PyInt \<lfloor>35 :: rat\<rfloor>,
           max_hp = Max (hp ` set (take 1 main_pokemons)),
           min_hp = Min (hp ` set (take 1 main_pokemons))\<rparr>"
    by blast
  then have w: "pokemon_statistics (take 1 main_pokemons) =
      Inr \<lparr>average_hp = PyInt 35, max_hp = 35, min_hp = 35\<rparr>"
    by (simp add: main_pokemons_eq)
  from a b c d e f g l v2 mx r a1 b1 c1 w show ?thesis by blast
qed

section \<open>Grouping by type\<close>

text \<open>
  In a list sorted by key, the run that \<^verbatim>\<open>groupby\<close> starts at \<open>x\<close> holds all items with
  the key of \<open>x\<close>, and what is left has greater keys only.
\<close>

lemma dropWhile_sorted_greater:
  fixes key :: "'a \<Rightarrow> 'k::linorder"
  shows "sorted (map key (x # xs)) \<Longrightarrow> y \<in> set (dropWhile (\<lambda>y. key y = key x) xs)
           \<Longrightarrow> key x < key y"
proof (induction xs)
  case Nil
  then show ?case by simp
next
  case (Cons a as)
  show ?case
  proof (cases "key a = key x")
    case True
    with Cons.prems have "sorted (map key (x # as))"
      and "y \<in> set (dropWhile (\<lambda>y. key y = key x) as)"
      by simp_all
    then show ?thesis by (rule Cons.IH)
  next
    case False
    with Cons.prems have "key x < key a" and "y = a \<or> key a \<le> key y"
      by auto
    then show ?thesis by auto
  qed
qed

lemma takeWhile_key_sorted:
  fixes key :: "'a \<Rightarrow> 'k::linorder"
  assumes "sorted (map key (x # xs))"
  shows "takeWhile (\<lambda>y. key y = key x) xs = filter (\<lambda>y. key y = key x) xs"
proof (rule takeWhile_eq_filter)
  fix y
  assume "y \<in> set (dropWhile (\<lambda>y. key y = key x) xs)"
  with assms have "key x < key y" by (rule dropWhile_sorted_greater)
  then show "\<not> key y = key x" by simp
qed

lemma sorted_key_dropWhile:
  fixes key :: "'a \<Rightarrow> 'k::linorder"
  shows "sorted (map key xs) \<Longrightarrow> sorted (map key (dropWhile P xs))"
  by (induction xs) auto

lemma filter_key_dropWhile:
  assumes "k \<noteq> key x"
  shows "filter (\<lambda>y. key y = k) (dropWhile (\<lambda>y. key y = key x) xs) = filter (\<lambda>y. key y = k) xs"
  using assms by (induction xs) auto

lemma key_image_dropWhile:
  assumes "k \<noteq> key x"
  shows "k \<in> key ` set (dropWhile (\<lambda>y. key y = key x) xs) \<longleftrightarrow> k \<in> key ` set xs"
  using assms by (induction xs) auto

lemma map_of_groupby:
  fixes key :: "'a \<Rightarrow> 'k::linorder"
  shows "sorted (map key xs) \<Longrightarrow>
     map_of (groupby key xs) k =
       (if k \<in> key ` set xs then Some (filter (\<lambda>y. key y = k) xs) else None)"
proof (induction key xs rule: groupby.induct)
  case (1 key)
  show ?case by simp
next
  case (2 key x xs)
  let ?rest = "dropWhile (\<lambda>y. key y = key x) xs"
  have srt: "sorted (map key ?rest)"
    using "2.prems" by (intro sorted_key_dropWhile) simp
  show ?case
  proof (cases "k = key x")
    case True
    with "2.prems" show ?thesis
      by (simp add: takeWhile_key_sorted del: sorted_simps)
  next
    case False
    have "map_of (groupby key (x # xs)) k = map_of (groupby key ?rest) k"
      using False by simp
    also have "\<dots> = (if k \<in> key ` set ?rest then Some (filter (\<lambda>y. key y = k) ?rest) else None)"
      by (rule "2.IH" [OF srt])
    also have "\<dots> = (if k \<in> key ` set (x # xs) then Some (filter (\<lambda>y. key y = k) (x # xs)) else None)"
      using False by (simp add: filter_key_dropWhile key_image_dropWhile)
    finally show ?thesis .
  qed
qed

lemma fst_groupby: "fst ` set (groupby key xs) \<subseteq> key ` set xs"
proof (induction key xs rule: groupby.induct)
  case (1 key)
  show ?case by simp
next
  case (2 key x xs)
  have "set (dropWhile (\<lambda>y. key y = key x) xs) \<subseteq> set xs"
    by (rule set_dropWhileD [THEN subsetI]) 
  with "2.IH" show ?case by auto
qed

lemma distinct_groupby:
  fixes key :: "'a \<Rightarrow> 'k::linorder"
  shows "sorted (map key xs) \<Longrightarrow> distinct (map fst (groupby key xs))"
proof (induction key xs rule: groupby.induct)
  case (1 key)
  show ?case by simp
next
  case (2 key x xs)
  let ?rest = "dropWhile (\<lambda>y. key y = key x) xs"
  have srt: "sorted (map key ?rest)"
    using "2.prems" by (intro sorted_key_dropWhile) simp
  have "key x \<notin> key ` set ?rest"
    using dropWhile_sorted_greater [OF "2.prems"] by fastforce
  with fst_groupby [of key ?rest] have "key x \<notin> fst ` set (groupby key ?rest)"
    by blast
  with "2.IH" [OF srt] show ?case by simp
qed

lemma fold_update_distinct:
  "distinct (map fst gs) \<Longrightarrow>
     fold (\<lambda>(t, g) m. m(t \<mapsto> g)) gs m k =
       (case map_of gs k of Some v \<Rightarrow> Some v | None \<Rightarrow> m k)"
proof (induction gs arbitrary: m)
  case Nil
  show ?case by simp
next
  case (Cons p gs)
  obtain t g where p: "p = (t, g)" by (cases p)
  from Cons.prems have d: "distinct (map fst gs)" and t: "t \<notin> fst ` set gs"
    by (simp_all add: p)
  from t have n: "map_of gs t = None"
    by (simp add: map_of_eq_None_iff)
  show ?case
    using Cons.IH [OF d, of "m(t \<mapsto> g)"] n by (auto simp: p split: option.split)
qed

lemma group_by_type_eq:
  "group_by_type pokemon_list t =
     (if t \<in> type' ` set pokemon_list
      then Some (filter (\<lambda>p. type' p = t) (sort_key type' pokemon_list)) else None)"
proof -
  let ?xs = "sort_key type' pokemon_list"
  have srt: "sorted (map type' ?xs)" by (rule sorted_sort_key)
  have "group_by_type pokemon_list t = map_of (groupby type' ?xs) t"
    unfolding group_by_type_def
    by (simp add: fold_update_distinct [OF distinct_groupby [OF srt]] split: option.split)
  also have "\<dots> = (if t \<in> type' ` set ?xs then Some (filter (\<lambda>p. type' p = t) ?xs) else None)"
    by (rule map_of_groupby [OF srt])
  finally show ?thesis by simp
qed

lemma group_by_type_input_order:
  "group_by_type pokemon_list t = Some g \<Longrightarrow> g = filter (\<lambda>p. type' p = t) pokemon_list"
  by (simp add: group_by_type_eq sort_key_stable split: if_splits)

text \<open>
  Claim C8. \<^verbatim>\<open>group_by_type\<close> partitions the roster by equality of the type string: the
  dict has a group exactly for the types that occur; an entity of the roster is in the
  group of a type exactly when that is its own type, so it is in one group; the groups
  together hold the roster's entities and nothing else; and a group lists its members
  in the order of the type-sorted roster.
\<close>

theorem group_by_type_partitions:
  "(\<forall>t. group_by_type pokemon_list t =
          (if t \<in> type' ` set pokemon_list
           then Some (filter (\<lambda>p. type' p = t) (sort_key type' pokemon_list)) else None))
   \<and> (\<forall>p \<in> set pokemon_list. \<forall>t.
          (\<exists>g. group_by_type pokemon_list t = Some g \<and> p \<in> set g) \<longleftrightarrow> t = type' p)
   \<and> (\<Union>g \<in> ran (group_by_type pokemon_list). set g) = set pokemon_list"
proof (intro conjI allI ballI)
  fix t
  show "group_by_type pokemon_list t =
          (if t \<in> type' ` set pokemon_list
           then Some (filter (\<lambda>p. type' p = t) (sort_key type' pokemon_list)) else None)"
    by (rule group_by_type_eq)
next
  fix p t
  assume "p \<in> set pokemon_list"
  then show "(\<exists>g. group_by_type pokemon_list t = Some g \<and> p \<in> set g) \<longleftrightarrow> t = type' p"
    by (auto simp: group_by_type_eq)
next
  show "(\<Union>g \<in> ran (group_by_type pokemon_list). set g) = set pokemon_list"
  proof (intro set_eqI iffI)
    fix p
    assume "p \<in> (\<Union>g \<in> ran (group_by_type pokemon_list). set g)"
    then obtain g t where "group_by_type pokemon_list t = Some g" "p \<in> set g"
      by (auto simp: ran_def)
    then show "p \<in> set pokemon_list"
      by (auto simp: group_by_type_eq split: if_splits)
  next
    fix p
    assume p: "p \<in> set pokemon_list"
    then have "group_by_type pokemon_list (type' p) =
                 Some (filter (\<lambda>q. type' q = type' p) (sort_key type' pokemon_list))"
      by (simp add: group_by_type_eq)
    moreover from p have "p \<in> set (filter (\<lambda>q. type' q = type' p) (sort_key type' pokemon_list))"
      by simp
    ultimately show "p \<in> (\<Union>g \<in> ran (group_by_type pokemon_list). set g)"
      by (auto simp: ran_def)
  qed
qed

theorem group_by_type_partitions_witness:
  "main_pokemons ! 1 \<in> set main_pokemons
   \<and> type' (main_pokemons ! 1) = ''Fire''
   \<and> group_by_type main_pokemons ''Fire'' = Some [main_pokemons ! 1]
   \<and> group_by_type main_pokemons ''Ice'' = None
   \<and> (\<forall>t. (\<exists>g. group_by_type main_pokemons t = Some g \<and> main_pokemons ! 1 \<in> set g)
            \<longleftrightarrow> t = ''Fire'')
   \<and> (\<Union>g \<in> ran (group_by_type main_pokemons). set g) = set main_pokemons"
proof -
  note t = group_by_type_partitions [of main_pokemons]
  have m: "main_pokemons ! 1 \<in> set main_pokemons" "type' (main_pokemons ! 1) = ''Fire''"
    by (simp_all add: main_pokemons_eq)
  have f: "filter (\<lambda>p. type' p = ''Fire'') main_pokemons = [main_pokemons ! 1]"
    "''Fire'' \<in> type' ` set main_pokemons" "''Ice'' \<notin> type' ` set main_pokemons"
    by (simp_all add: main_pokemons_eq)
  from t [THEN conjunct1] f have a: "group_by_type main_pokemons ''Fire'' = Some [main_pokemons ! 1]"
    "group_by_type main_pokemons ''Ice'' = None"
    by (simp_all add: sort_key_stable)
  from t [THEN conjunct2, THEN conjunct1] m
  have b: "\<forall>t. (\<exists>g. group_by_type main_pokemons t = Some g \<and> main_pokemons ! 1 \<in> set g)
            \<longleftrightarrow> t = ''Fire''"
    by metis
  from t [THEN conjunct2, THEN conjunct2]
  have c: "(\<Union>g \<in> ran (group_by_type main_pokemons). set g) = set main_pokemons" .
  from m a b c show ?thesis by blast
qed

end
